theory Spec2Isabelle
  imports Complex_Main "HOL-Library.Sublist"
begin

section \<open>Image extraction: the operator scan of \<open>extractEmbeddedImages\<close>\<close>

text \<open>
  The scan of one page (\<open>src/core/state.js\<close>, \<open>extractEmbeddedImages\<close>) walks the
  operator list once and keeps a transform stack, a clip-bounds stack, the name of the last
  \<open>dependency\<close> operator, the set of already extracted object names and a shading counter.
  JavaScript numbers are modelled as \<open>real\<close>: rounding, \<open>NaN\<close> and the infinities are
  outside the model.
\<close>

subsection \<open>Data\<close>

text \<open>A transform is the six-element array \<open>[a, b, c, d, e, f]\<close>.\<close>

type_synonym matrix = "real \<times> real \<times> real \<times> real \<times> real \<times> real"

record clip_bounds =
  minX :: real
  minY :: real
  maxX :: real
  maxY :: real

text \<open>
  The value found in the name position of an operator's arguments.  \<open>Missing\<close> is
  \<open>null\<close>/\<open>undefined\<close>; \<open>Str\<close> is a string; \<open>Obj i n\<close> is an object with its identity \<open>i\<close>
  (a \<open>Set\<close> compares objects by identity) and its \<open>name\<close> property, if it has one.  Any
  other truthy value has no \<open>name\<close> property and is treated by the scan as \<open>Obj i None\<close> is.
\<close>

datatype name_val = Missing | Str string | Obj nat "string option"

text \<open>An entry of \<open>page.objs\<close>: \<open>obj.bitmap\<close>, \<open>obj.width\<close>, \<open>obj.height\<close> and the
  \<open>BBox\<close> array of \<open>obj.dict\<close> (\<open>None\<close> when there is no dictionary or no such entry).\<close>

record pdf_obj =
  bitmap :: bool
  obj_width :: real
  obj_height :: real
  dict_BBox :: "real list option"

text \<open>The record pushed onto \<open>allImages\<close>.\<close>

record image =
  index :: nat
  dataURL :: string
  originalSize :: nat
  width :: real
  height :: real
  pageNum :: nat
  imageName :: string
  isOptimized :: bool
  optimizedDataURL :: "string option"
  optimizedSize :: nat

text \<open>
  What the scan reads from a rendered page: the viewport, the loaded objects, and the two
  canvas pipelines (create a canvas, draw, \<open>toDataURL\<close>).  A canvas pipeline that throws
  is \<open>None\<close>.
\<close>

record page =
  viewport_scale :: real
  viewport_height :: real
  objs :: "name_val \<Rightarrow> pdf_obj option"
  bitmap_toDataURL :: "name_val \<Rightarrow> string option"
  region_toDataURL :: "real \<Rightarrow> real \<Rightarrow> real \<Rightarrow> real \<Rightarrow> string option"

text \<open>
  The operators the scan dispatches on, each with the arguments it reads.
  \<open>PaintFormXObjectBegin\<close> carries \<open>args[1]\<close>, the two image operators carry \<open>args[0]\<close>.
  \<open>NullArgs\<close> is an operator with one of the opcodes \<open>dependency\<close>, \<open>transform\<close>,
  \<open>constructPath\<close> or a paint opcode whose entry of \<open>argsArray\<close> is \<open>null\<close>; \<open>OtherOp\<close> is
  any opcode the scan does not look at.
\<close>

datatype operator =
    Dependency name_val
  | Save
  | Restore
  | Transform matrix
  | ConstructPath "real list option"
  | Clip
  | ShadingFill
  | PaintImageXObject name_val
  | PaintInlineImageXObject name_val
  | PaintFormXObjectBegin name_val
  | NullArgs
  | OtherOp

datatype exn = TypeError

record scan_state =
  transformStack :: "matrix list"
  currentTransform :: matrix
  clippingStack :: "clip_bounds option list"
  currentClipBounds :: "clip_bounds option"
  shadingIndex :: nat
  lastDependencyName :: name_val
  extractedObjects :: "name_val set"
  allImages :: "image list"
  imageIndex :: nat

subsection \<open>Strings\<close>

text \<open>The decimal digits a template literal prints for a non-negative integer.\<close>

fun nat_to_string :: "nat \<Rightarrow> string" where
  "nat_to_string n =
     (if n < 10 then [''0123456789'' ! n]
      else nat_to_string (n div 10) @ [''0123456789'' ! (n mod 10)])"

declare nat_to_string.simps [simp del]

text \<open>What a template literal prints for a name value.\<close>

fun name_to_string :: "name_val \<Rightarrow> string" where
  "name_to_string Missing = ''null''"
| "name_to_string (Str s) = s"
| "name_to_string (Obj i n) = ''[object Object]''"

text \<open>
  \<open>estimateDataURLSize\<close>: \<open>dataURL.split(',')[1]\<close> is the text between the first and the
  second comma; without a comma it is \<open>undefined\<close> and reading its length throws.
\<close>

definition estimateDataURLSize :: "string \<Rightarrow> nat option" where
  "estimateDataURLSize url =
     (case dropWhile (\<lambda>c. c \<noteq> CHR '','') url of
        [] \<Rightarrow> None
      | _ # rest \<Rightarrow> Some ((length (takeWhile (\<lambda>c. c \<noteq> CHR '','') rest) * 3 + 3) div 4))"

subsection \<open>Trackers\<close>

text \<open>The state at the start of a page; \<open>allImages\<close> and \<open>imageIndex\<close> run across pages.\<close>

definition identity_matrix :: matrix where
  "identity_matrix = (1, 0, 0, 1, 0, 0)"

definition page_init :: "image list \<Rightarrow> nat \<Rightarrow> scan_state" where
  "page_init imgs idx =
     \<lparr> transformStack = [identity_matrix],
       currentTransform = identity_matrix,
       clippingStack = [],
       currentClipBounds = None,
       shadingIndex = 0,
       lastDependencyName = Missing,
       extractedObjects = {},
       allImages = imgs,
       imageIndex = idx \<rparr>"

text \<open>The \<open>OPS.transform\<close> branch: the new value of \<open>currentTransform\<close>.\<close>

fun multiply_transform :: "matrix \<Rightarrow> matrix \<Rightarrow> matrix" where
  "multiply_transform (a, b, c, d, e, f) (a0, b0, c0, d0, e0, f0) =
     (a * a0 + b * c0,
      a * b0 + b * d0,
      c * a0 + d * c0,
      c * b0 + d * d0,
      e * a0 + f * c0 + e0,
      e * b0 + f * d0 + f0)"

text \<open>\<open>transformStack[transformStack.length - 1] = m\<close>; on an empty array the assignment
  creates the property \<open>-1\<close> and no element.\<close>

definition set_top :: "matrix list \<Rightarrow> matrix \<Rightarrow> matrix list" where
  "set_top ts m = (if ts = [] then ts else ts[length ts - 1 := m])"

definition do_save :: "scan_state \<Rightarrow> scan_state" where
  "do_save s =
     s\<lparr> transformStack := transformStack s @ [currentTransform s],
        clippingStack := clippingStack s @ [currentClipBounds s] \<rparr>"

definition do_restore :: "scan_state \<Rightarrow> scan_state" where
  "do_restore s =
     (let s1 = (if length (transformStack s) > 1
                then s\<lparr> transformStack := butlast (transformStack s),
                        currentTransform := last (butlast (transformStack s)) \<rparr>
                else s)
      in if length (clippingStack s1) > 0
         then s1\<lparr> currentClipBounds := last (clippingStack s1),
                  clippingStack := butlast (clippingStack s1) \<rparr>
         else s1)"

definition do_transform :: "matrix \<Rightarrow> scan_state \<Rightarrow> scan_state" where
  "do_transform m s =
     (let t = multiply_transform m (currentTransform s)
      in s\<lparr> currentTransform := t, transformStack := set_top (transformStack s) t \<rparr>)"

text \<open>
  The bounding-box loop of the \<open>constructPath\<close> branch, two entries per round.  A last
  odd entry has \<open>y = undefined\<close>, and every comparison with it is false.  The loop starts
  from \<open>\<plusminus>Infinity\<close>, so its first round stores the first pair; the model starts there.
\<close>

fun bounds_loop :: "real list \<Rightarrow> clip_bounds \<Rightarrow> clip_bounds" where
  "bounds_loop (x # y # rest) b =
     bounds_loop rest
       \<lparr> minX = (if x < minX b then x else minX b),
         minY = (if y < minY b then y else minY b),
         maxX = (if x > maxX b then x else maxX b),
         maxY = (if y > maxY b then y else maxY b) \<rparr>"
| "bounds_loop [x] b =
     b\<lparr> minX := (if x < minX b then x else minX b),
        maxX := (if x > maxX b then x else maxX b) \<rparr>"
| "bounds_loop [] b = b"

definition do_constructPath :: "real list option \<Rightarrow> scan_state \<Rightarrow> scan_state" where
  "do_constructPath pathData s =
     (case pathData of
        None \<Rightarrow> s
      | Some pd \<Rightarrow>
          (if length pd \<ge> 4
           then (case pd of
                   x # y # rest \<Rightarrow>
                     s\<lparr> currentClipBounds :=
                          Some (bounds_loop rest \<lparr> minX = x, minY = y, maxX = x, maxY = y \<rparr>) \<rparr>
                 | _ \<Rightarrow> s)
           else s))"

subsection \<open>Extraction\<close>

text \<open>
  Pushing a record.  The object literal evaluates \<open>imageIndex++\<close> before
  \<open>estimateDataURLSize(dataURL)\<close>, so a throw of the latter loses the index but pushes
  nothing; the \<open>after\<close> function is what follows the push inside the same \<open>try\<close>.
\<close>

definition push_image ::
  "nat \<Rightarrow> string \<Rightarrow> real \<Rightarrow> real \<Rightarrow> string \<Rightarrow> (scan_state \<Rightarrow> scan_state) \<Rightarrow> scan_state \<Rightarrow> scan_state"
where
  "push_image pn url w h nm after s =
     (case estimateDataURLSize url of
        None \<Rightarrow> s\<lparr> imageIndex := imageIndex s + 1 \<rparr>
      | Some sz \<Rightarrow>
          after (s\<lparr> allImages := allImages s @
                      [\<lparr> index = imageIndex s, dataURL = url, originalSize = sz,
                         width = w, height = h, pageNum = pn, imageName = nm,
                         isOptimized = False, optimizedDataURL = None, optimizedSize = 0 \<rparr>],
                    imageIndex := imageIndex s + 1 \<rparr>))"

text \<open>The \<open>OPS.shadingFill\<close> branch.\<close>

definition shading_region :: "page \<Rightarrow> matrix \<Rightarrow> clip_bounds \<Rightarrow> real \<times> real \<times> real \<times> real" where
  "shading_region pg m cb =
     (case m of (a, b, c, d, e, f) \<Rightarrow>
        let x1 = minX cb * a + minY cb * c + e;
            y1 = minX cb * b + minY cb * d + f;
            x2 = maxX cb * a + maxY cb * c + e;
            y2 = maxX cb * b + maxY cb * d + f;
            canvasX = min x1 x2 * viewport_scale pg;
            canvasY = viewport_height pg - max y1 y2 * viewport_scale pg;
            w = \<bar>x2 - x1\<bar> * viewport_scale pg;
            h = \<bar>y2 - y1\<bar> * viewport_scale pg
        in (canvasX, canvasY, w, h))"

definition shading_name :: "nat \<Rightarrow> nat \<Rightarrow> string" where
  "shading_name pn k = ''page-'' @ nat_to_string pn @ ''-shading-'' @ nat_to_string k"

definition do_shadingFill :: "nat \<Rightarrow> page \<Rightarrow> scan_state \<Rightarrow> scan_state" where
  "do_shadingFill pn pg s =
     (case currentClipBounds s of
        None \<Rightarrow> s
      | Some cb \<Rightarrow>
          (case shading_region pg (currentTransform s) cb of (canvasX, canvasY, w, h) \<Rightarrow>
             if w > 1 \<and> h > 1
             then (case region_toDataURL pg canvasX canvasY w h of
                     None \<Rightarrow> s
                   | Some url \<Rightarrow>
                       push_image pn url w h (shading_name pn (shadingIndex s))
                         (\<lambda>t. t\<lparr> shadingIndex := shadingIndex t + 1 \<rparr>) s)
             else s))"

text \<open>The paint branch: name resolution and validation.\<close>

fun truthy :: "name_val \<Rightarrow> bool" where
  "truthy Missing = False"
| "truthy (Str s) = (s \<noteq> [])"
| "truthy (Obj i n) = True"

fun has_name_property :: "name_val \<Rightarrow> bool" where
  "has_name_property (Obj i (Some n)) = (n \<noteq> [])"
| "has_name_property _ = False"

fun is_string :: "name_val \<Rightarrow> bool" where
  "is_string (Str s) = True"
| "is_string _ = False"

definition form_name :: "name_val \<Rightarrow> name_val \<Rightarrow> name_val" where
  "form_name arg1 lastDep = (if truthy arg1 then arg1 else lastDep)"

definition invalid_name :: "name_val \<Rightarrow> bool" where
  "invalid_name n = (\<not> truthy n \<or> (\<not> is_string n \<and> \<not> has_name_property n))"

text \<open>The size of a form from its \<open>BBox\<close>, 100 by 100 without one.\<close>

definition form_size :: "pdf_obj \<Rightarrow> real \<times> real" where
  "form_size obj =
     (case dict_BBox obj of
        None \<Rightarrow> (100, 100)
      | Some bb \<Rightarrow>
          if length bb \<ge> 4 then (\<bar>bb ! 2 - bb ! 0\<bar>, \<bar>bb ! 3 - bb ! 1\<bar>) else (100, 100))"

definition transformedWidth :: "matrix \<Rightarrow> pdf_obj \<Rightarrow> real" where
  "transformedWidth m obj = (case m of (a, b, c, d, e, f) \<Rightarrow> \<bar>a * fst (form_size obj)\<bar>)"

definition transformedHeight :: "matrix \<Rightarrow> pdf_obj \<Rightarrow> real" where
  "transformedHeight m obj = (case m of (a, b, c, d, e, f) \<Rightarrow> \<bar>d * snd (form_size obj)\<bar>)"

definition extract_form :: "nat \<Rightarrow> page \<Rightarrow> name_val \<Rightarrow> pdf_obj \<Rightarrow> scan_state \<Rightarrow> scan_state" where
  "extract_form pn pg nm obj s =
     (case currentTransform s of (a, b, c, d, e, f) \<Rightarrow>
        let tw = transformedWidth (currentTransform s) obj;
            th = transformedHeight (currentTransform s) obj;
            x = e * viewport_scale pg;
            y = viewport_height pg - f * viewport_scale pg - th
        in if tw > 1 \<and> th > 1
           then (case region_toDataURL pg x y tw th of
                   None \<Rightarrow> s
                 | Some url \<Rightarrow>
                     push_image pn url tw th
                       (''page-'' @ nat_to_string pn @ ''-form-'' @ name_to_string nm)
                       (\<lambda>t. t\<lparr> extractedObjects := insert nm (extractedObjects t) \<rparr>) s)
           else s)"

definition extract_bitmap :: "nat \<Rightarrow> page \<Rightarrow> name_val \<Rightarrow> pdf_obj \<Rightarrow> scan_state \<Rightarrow> scan_state" where
  "extract_bitmap pn pg nm obj s =
     (case bitmap_toDataURL pg nm of
        None \<Rightarrow> s
      | Some url \<Rightarrow>
          push_image pn url (obj_width obj) (obj_height obj)
            (''page-'' @ nat_to_string pn @ ''-'' @ name_to_string nm)
            (\<lambda>t. t\<lparr> extractedObjects := insert nm (extractedObjects t) \<rparr>) s)"

text \<open>The body of the paint branch once the name is resolved; \<open>is_form\<close> tells whether
  the opcode is \<open>paintFormXObjectBegin\<close>.\<close>

definition do_paint :: "nat \<Rightarrow> page \<Rightarrow> bool \<Rightarrow> name_val \<Rightarrow> scan_state \<Rightarrow> scan_state" where
  "do_paint pn pg is_form actualImageName s =
     (if invalid_name actualImageName then s
      else if actualImageName \<in> extractedObjects s then s
      else (case objs pg actualImageName of
              None \<Rightarrow> s
            | Some obj \<Rightarrow>
                if bitmap obj then extract_bitmap pn pg actualImageName obj s
                else if is_form then extract_form pn pg actualImageName obj s
                else s))"

subsection \<open>The scan\<close>

fun step :: "nat \<Rightarrow> page \<Rightarrow> scan_state \<Rightarrow> operator \<Rightarrow> exn + scan_state" where
  "step pn pg s (Dependency n) = Inr (s\<lparr> lastDependencyName := n \<rparr>)"
| "step pn pg s Save = Inr (do_save s)"
| "step pn pg s Restore = Inr (do_restore s)"
| "step pn pg s (Transform m) = Inr (do_transform m s)"
| "step pn pg s (ConstructPath pd) = Inr (do_constructPath pd s)"
| "step pn pg s Clip = Inr s"
| "step pn pg s ShadingFill = Inr (do_shadingFill pn pg s)"
| "step pn pg s (PaintImageXObject n) = Inr (do_paint pn pg False n s)"
| "step pn pg s (PaintInlineImageXObject n) = Inr (do_paint pn pg False n s)"
| "step pn pg s (PaintFormXObjectBegin n) =
     Inr (do_paint pn pg True (form_name n (lastDependencyName s)) s)"
| "step pn pg s NullArgs = Inl TypeError"
| "step pn pg s OtherOp = Inr s"

text \<open>The loop over \<open>ops.fnArray\<close>; an uncaught exception ends it.\<close>

fun scan :: "nat \<Rightarrow> page \<Rightarrow> operator list \<Rightarrow> scan_state \<Rightarrow> exn + scan_state" where
  "scan pn pg [] s = Inr s"
| "scan pn pg (op # ops) s =
     (case step pn pg s op of
        Inl e \<Rightarrow> Inl e
      | Inr s' \<Rightarrow> scan pn pg ops s')"

text \<open>The loop over the pages, numbered from \<open>pn\<close>, and the whole extraction.\<close>

fun extract_pages ::
  "nat \<Rightarrow> (page \<times> operator list) list \<Rightarrow> image list \<Rightarrow> nat \<Rightarrow> exn + image list"
where
  "extract_pages pn [] imgs idx = Inr imgs"
| "extract_pages pn ((pg, ops) # rest) imgs idx =
     (case scan pn pg ops (page_init imgs idx) of
        Inl e \<Rightarrow> Inl e
      | Inr s \<Rightarrow> extract_pages (pn + 1) rest (allImages s) (imageIndex s))"

definition extractEmbeddedImages :: "(page \<times> operator list) list \<Rightarrow> exn + image list" where
  "extractEmbeddedImages pages = extract_pages 1 pages [] 0"

subsection \<open>The invariant of the trackers\<close>

text \<open>The transform stack is never empty, \<open>currentTransform\<close> is its top, and the clip
  stack is one shorter than the transform stack.\<close>

definition tracker_inv :: "scan_state \<Rightarrow> bool" where
  "tracker_inv s \<longleftrightarrow>
     transformStack s \<noteq> [] \<and>
     currentTransform s = last (transformStack s) \<and>
     length (transformStack s) = Suc (length (clippingStack s))"

subsection \<open>A sample page\<close>

text \<open>A page with a 300 by 200 bitmap \<open>Im1\<close> and a form \<open>Fm1\<close> whose \<open>BBox\<close> is 10 by 20;
  both canvas pipelines succeed.\<close>

definition demo_page :: page where
  "demo_page =
     \<lparr> viewport_scale = 2, viewport_height = 200,
       objs = (\<lambda>n. if n = Str ''Im1'' then
                      Some \<lparr> bitmap = True, obj_width = 300, obj_height = 200, dict_BBox = None \<rparr>
                    else if n = Str ''Fm1'' then
                      Some \<lparr> bitmap = False, obj_width = 0, obj_height = 0,
                             dict_BBox = Some [0, 0, 10, 20] \<rparr>
                    else None),
       bitmap_toDataURL = (\<lambda>n. Some ''data:image/png;base64,AAAA''),
       region_toDataURL = (\<lambda>x y w h. Some ''data:image/png;base64,BBBB'') \<rparr>"

subsection \<open>Reading an operator list\<close>



section \<open>Saving: the \<open>savePdfBtn\<close> click handler of \<open>editor.js\<close>\<close>

text \<open>
  The handler loads the original document with pdf-lib, matches the image XObjects of every
  page with the extracted records by page and size, patches the matched ones and
  serializes the document.  The branch for full-page renders (jsPDF) is not modelled.
\<close>

subsection \<open>The destination document\<close>

type_synonym bytes = "nat list"

text \<open>The \<open>Width\<close> or \<open>Height\<close> entry of a dictionary: absent, a number, or a value that
  converts to \<open>NaN\<close>.\<close>

datatype pdf_dim = DimMissing | DimNum real | DimNaN

record stream_dict =
  d_Type :: "string option"
  d_Subtype :: "string option"
  d_Width :: pdf_dim
  d_Height :: pdf_dim
  d_BitsPerComponent :: "nat option"
  d_ColorSpace :: "string option"
  d_Filter :: "string option"

text \<open>
  What \<open>context.lookup\<close> finds: an object with \<open>dict\<close> and \<open>contents\<close>, a dictionary with
  its \<open>entries()\<close> (name and reference), the image registered by \<open>embedPng\<close>, or anything
  else.
\<close>

datatype pdf_object =
    Stream stream_dict bytes
  | Dict "(string \<times> nat) list"
  | EmbeddedPng bytes
  | OtherObject

text \<open>
  The document: the objects by reference, for every page the \<open>XObject\<close> value of its
  \<open>Resources\<close> (\<open>None\<close> without resources or without the entry; a direct dictionary is
  addressed like a referenced one, so two pages can share one), and the next free
  reference.
\<close>

record pdf_doc =
  lookup :: "nat \<Rightarrow> pdf_object option"
  pages :: "nat option list"
  nextRef :: nat

record replacement =
  r_pageNum :: nat
  xObjKeyName :: string
  xObjRef :: nat
  optimizedImg :: image
  r_width :: real
  r_height :: real

text \<open>The collaborators: pdf-lib's loader, \<open>fetch\<close> of a data URL, \<open>embedPng\<close> (which
  may reject the bytes) and the serializer; \<open>None\<close> and \<open>False\<close> stand for a throw.\<close>

record save_env =
  pdfLib_loaded :: bool
  load :: "bytes \<Rightarrow> pdf_doc option"
  fetch :: "string \<Rightarrow> bytes option"
  embedPng_ok :: "bytes \<Rightarrow> bool"
  save :: "pdf_doc \<Rightarrow> bytes option"

text \<open>What the handler can fail with: the two errors it throws itself, and a throw of
  the loader or of the serializer.\<close>

datatype save_error = LibraryNotLoaded | OriginalDataMissing | LoadFailed | SerializeFailed

subsection \<open>Matching\<close>

text \<open>Grouping \<open>state.pdfImages\<close> by page, in order.\<close>

fun index_by_page :: "image list \<Rightarrow> (nat \<Rightarrow> image list option) \<Rightarrow> (nat \<Rightarrow> image list option)" where
  "index_by_page [] m = m"
| "index_by_page (img # rest) m =
     (let m1 = (case m (pageNum img) of None \<Rightarrow> m(pageNum img \<mapsto> []) | Some l \<Rightarrow> m)
      in index_by_page rest
           (m1(pageNum img \<mapsto> (case m1 (pageNum img) of None \<Rightarrow> [] | Some l \<Rightarrow> l) @ [img])))"

definition imagesByPage :: "image list \<Rightarrow> (nat \<Rightarrow> image list option)" where
  "imagesByPage imgs = index_by_page imgs Map.empty"

text \<open>The key put into \<open>matchedImages\<close>: page number, a dash, index.\<close>

definition imgKey :: "image \<Rightarrow> string" where
  "imgKey img = nat_to_string (pageNum img) @ ''-'' @ nat_to_string (index img)"

text \<open>The inner loop: the first record not yet matched whose size is strictly equal.\<close>

fun find_match :: "image list \<Rightarrow> string set \<Rightarrow> real \<Rightarrow> real \<Rightarrow> image option" where
  "find_match [] matched w h = None"
| "find_match (img # rest) matched w h =
     (if imgKey img \<notin> matched \<and> width img = w \<and> height img = h
      then Some img
      else find_match rest matched w h)"

text \<open>One entry of a page's XObject dictionary.  Without a \<open>Width\<close> or a \<open>Height\<close> the
  entry is passed over; with a \<open>NaN\<close> the inner loop runs but \<open>===\<close> never holds.\<close>

definition match_entry ::
  "pdf_doc \<Rightarrow> (nat \<Rightarrow> image list option) \<Rightarrow> nat \<Rightarrow> string \<times> nat \<Rightarrow>
   replacement list \<times> string set \<Rightarrow> replacement list \<times> string set"
where
  "match_entry doc byPage pn entry acc =
     (case entry of (xObjKey, ref) \<Rightarrow>
      case acc of (replacements, matchedImages) \<Rightarrow>
        (case lookup doc ref of
           Some (Stream d c) \<Rightarrow>
             if d_Subtype d = Some ''Image''
             then
               (case (d_Width d, d_Height d) of
                  (DimNum w, DimNum h) \<Rightarrow>
                    (let pageImages = (case byPage pn of None \<Rightarrow> [] | Some l \<Rightarrow> l)
                     in case find_match pageImages matchedImages w h of
                          None \<Rightarrow> acc
                        | Some img \<Rightarrow>
                            (replacements @
                               [\<lparr> r_pageNum = pn, xObjKeyName = xObjKey, xObjRef = ref,
                                  optimizedImg = img, r_width = w, r_height = h \<rparr>],
                             insert (imgKey img) matchedImages))
                | _ \<Rightarrow> acc)
             else acc
         | _ \<Rightarrow> acc))"

fun match_entries ::
  "pdf_doc \<Rightarrow> (nat \<Rightarrow> image list option) \<Rightarrow> nat \<Rightarrow> (string \<times> nat) list \<Rightarrow>
   replacement list \<times> string set \<Rightarrow> replacement list \<times> string set"
where
  "match_entries doc byPage pn [] acc = acc"
| "match_entries doc byPage pn (entry # rest) acc =
     match_entries doc byPage pn rest (match_entry doc byPage pn entry acc)"

text \<open>The entries of the XObject dictionary of a page value, when it resolves to one.\<close>

definition xobject_entries :: "pdf_doc \<Rightarrow> nat option \<Rightarrow> (nat \<times> (string \<times> nat) list) option" where
  "xobject_entries doc v =
     (case v of
        None \<Rightarrow> None
      | Some addr \<Rightarrow>
          (case lookup doc addr of
             Some (Dict es) \<Rightarrow> Some (addr, es)
           | _ \<Rightarrow> None))"

fun match_pages ::
  "pdf_doc \<Rightarrow> (nat \<Rightarrow> image list option) \<Rightarrow> nat \<Rightarrow> nat option list \<Rightarrow>
   replacement list \<times> string set \<Rightarrow> replacement list \<times> string set"
where
  "match_pages doc byPage pn [] acc = acc"
| "match_pages doc byPage pn (v # rest) acc =
     match_pages doc byPage (pn + 1) rest
       (case xobject_entries doc v of
          None \<Rightarrow> acc
        | Some (addr, es) \<Rightarrow> match_entries doc byPage pn es acc)"

definition buildReplacementPlan :: "pdf_doc \<Rightarrow> image list \<Rightarrow> replacement list" where
  "buildReplacementPlan doc imgs =
     fst (match_pages doc (imagesByPage imgs) 1 (pages doc) ([], {}))"

subsection \<open>Patching\<close>

text \<open>\<open>optimizedImg.optimizedDataURL || optimizedImg.dataURL\<close>: \<open>null\<close> and the empty string
  are falsy.\<close>

definition dataURLToUse :: "image \<Rightarrow> string" where
  "dataURLToUse img =
     (case optimizedDataURL img of
        None \<Rightarrow> dataURL img
      | Some u \<Rightarrow> if u = [] then dataURL img else u)"

text \<open>\<open>String.prototype.includes\<close>.\<close>

fun str_includes :: "string \<Rightarrow> string \<Rightarrow> bool" where
  "str_includes [] t = (t = [])"
| "str_includes (c # cs) t = (prefix t (c # cs) \<or> str_includes cs t)"

text \<open>\<open>PDFDict.set\<close>: the value of an existing key is replaced, a new key is added last.\<close>

fun dict_set :: "(string \<times> nat) list \<Rightarrow> string \<Rightarrow> nat \<Rightarrow> (string \<times> nat) list" where
  "dict_set [] k v = [(k, v)]"
| "dict_set ((k', v') # es) k v = (if k' = k then (k, v) # es else (k', v') # dict_set es k v)"

text \<open>\<open>pdfDoc.getPages()[pageNum - 1]\<close> and its XObject dictionary; \<open>None\<close> where the
  source would read a property of \<open>undefined\<close>.\<close>

definition page_xobjects :: "pdf_doc \<Rightarrow> nat \<Rightarrow> (nat \<times> (string \<times> nat) list) option" where
  "page_xobjects doc pn =
     (if pn = 0 \<or> pn > length (pages doc) then None
      else xobject_entries doc (pages doc ! (pn - 1)))"

text \<open>
  The PNG branch: \<open>embedPng\<close> registers a new object under a fresh reference, then the
  page's XObject dictionary is pointed at it.  The flag tells whether the branch reached
  its \<open>continue\<close>; a throw anywhere in it is caught and leads to the manual branch.
\<close>

definition try_embedPng :: "save_env \<Rightarrow> replacement \<Rightarrow> bytes \<Rightarrow> pdf_doc \<Rightarrow> pdf_doc \<times> bool" where
  "try_embedPng env r imageBytes doc =
     (if \<not> embedPng_ok env imageBytes then (doc, False)
      else
        (let newImageRef = nextRef doc;
             doc1 = doc\<lparr> lookup := (lookup doc)(newImageRef \<mapsto> EmbeddedPng imageBytes),
                        nextRef := newImageRef + 1 \<rparr>
         in case page_xobjects doc1 (r_pageNum r) of
              None \<Rightarrow> (doc1, False)
            | Some (addr, es) \<Rightarrow>
                (doc1\<lparr> lookup := (lookup doc1)(addr \<mapsto> Dict (dict_set es (xObjKeyName r) newImageRef)) \<rparr>,
                 True)))"

text \<open>The manual branch: a minimal image dictionary and the bytes overwrite the old
  object, which keeps its reference.\<close>

definition manual_dict :: "replacement \<Rightarrow> bool \<Rightarrow> stream_dict" where
  "manual_dict r isJpeg =
     \<lparr> d_Type = Some ''XObject'', d_Subtype = Some ''Image'',
       d_Width = DimNum (r_width r), d_Height = DimNum (r_height r),
       d_BitsPerComponent = Some 8, d_ColorSpace = Some ''DeviceRGB'',
       d_Filter = Some (if isJpeg then ''DCTDecode'' else ''FlateDecode'') \<rparr>"

definition manual_replace :: "replacement \<Rightarrow> bool \<Rightarrow> bytes \<Rightarrow> pdf_doc \<Rightarrow> pdf_doc" where
  "manual_replace r isJpeg imageBytes doc =
     doc\<lparr> lookup := (lookup doc)(xObjRef r \<mapsto> Stream (manual_dict r isJpeg) imageBytes) \<rparr>"

text \<open>The body of the loop over the replacements, with its \<open>try\<close>/\<open>catch\<close>: a \<open>fetch\<close>
  that throws and an old object that is not found both leave the document as it is.\<close>

definition apply_replacement :: "save_env \<Rightarrow> replacement \<Rightarrow> pdf_doc \<Rightarrow> pdf_doc" where
  "apply_replacement env r doc =
     (let url = dataURLToUse (optimizedImg r)
      in case fetch env url of
           None \<Rightarrow> doc
         | Some imageBytes \<Rightarrow>
             (case lookup doc (xObjRef r) of
                None \<Rightarrow> doc
              | Some oldImageObj \<Rightarrow>
                  (let isPng = str_includes url ''image/png'';
                       isJpeg = str_includes url ''image/jpeg''
                   in if isPng
                      then (case try_embedPng env r imageBytes doc of
                              (doc1, True) \<Rightarrow> doc1
                            | (doc1, False) \<Rightarrow> manual_replace r isJpeg imageBytes doc1)
                      else manual_replace r isJpeg imageBytes doc)))"

fun apply_replacements :: "save_env \<Rightarrow> replacement list \<Rightarrow> pdf_doc \<Rightarrow> pdf_doc" where
  "apply_replacements env [] doc = doc"
| "apply_replacements env (r # rs) doc = apply_replacements env rs (apply_replacement env r doc)"

text \<open>Patching a plan and serializing; and the handler, which fails before any change
  when pdf-lib or the original bytes are missing or the document does not load.\<close>

definition patch_and_save :: "save_env \<Rightarrow> replacement list \<Rightarrow> pdf_doc \<Rightarrow> save_error + bytes" where
  "patch_and_save env plan doc =
     (case save env (apply_replacements env plan doc) of
        None \<Rightarrow> Inl SerializeFailed
      | Some pdfBytes \<Rightarrow> Inr pdfBytes)"

definition savePdf :: "save_env \<Rightarrow> bytes option \<Rightarrow> image list \<Rightarrow> save_error + bytes" where
  "savePdf env pdfOriginalBytes pdfImages =
     (if \<not> pdfLib_loaded env then Inl LibraryNotLoaded
      else case pdfOriginalBytes of
             None \<Rightarrow> Inl OriginalDataMissing
           | Some bs \<Rightarrow>
               if length bs = 0 then Inl OriginalDataMissing
               else (case load env bs of
                       None \<Rightarrow> Inl LoadFailed
                     | Some pdfDoc \<Rightarrow>
                         patch_and_save env (buildReplacementPlan pdfDoc pdfImages) pdfDoc))"

subsection \<open>The matcher as the specification words it\<close>

text \<open>
  The matcher of the specification, to compare \<open>buildReplacementPlan\<close> with.  It walks
  every page, numbered from 1, and lists the entries of its XObject dictionary with the
  page number; an entry is an image when its object is a stream whose \<open>Subtype\<close> is
  \<open>Image\<close> with a numeric \<open>Width\<close> and \<open>Height\<close>; each image, in that order, is paired
  with the first record of its page that no earlier pair has consumed (by its key of
  page and index) and whose width and height equal the image's.
\<close>

definition spec_entries_of :: "pdf_doc \<Rightarrow> (nat \<times> nat option) list \<Rightarrow> (nat \<times> string \<times> nat) list" where
  "spec_entries_of doc numbered =
     concat (map (\<lambda>(p, v). case xobject_entries doc v of
                               None \<Rightarrow> []
                             | Some (addr, es) \<Rightarrow> map (\<lambda>(k, ref). (p, k, ref)) es) numbered)"

definition spec_page_entries :: "pdf_doc \<Rightarrow> (nat \<times> string \<times> nat) list" where
  "spec_page_entries doc = spec_entries_of doc (enumerate 1 (pages doc))"

definition spec_image_size :: "pdf_doc \<Rightarrow> nat \<Rightarrow> (real \<times> real) option" where
  "spec_image_size doc ref =
     (case lookup doc ref of
        Some (Stream d c) \<Rightarrow>
          (if d_Subtype d = Some ''Image''
           then (case (d_Width d, d_Height d) of
                   (DimNum w, DimNum h) \<Rightarrow> Some (w, h)
                 | _ \<Rightarrow> None)
           else None)
      | _ \<Rightarrow> None)"

definition consumed :: "replacement list \<Rightarrow> string set" where
  "consumed plan = (\<lambda>r. imgKey (optimizedImg r)) ` set plan"

definition spec_pair ::
  "image list \<Rightarrow> pdf_doc \<Rightarrow> replacement list \<Rightarrow> nat \<times> string \<times> nat \<Rightarrow> replacement list"
where
  "spec_pair imgs doc plan entry =
     (case entry of (p, k, ref) \<Rightarrow>
        (case spec_image_size doc ref of
           None \<Rightarrow> plan
         | Some (w, h) \<Rightarrow>
             (case List.find (\<lambda>img. imgKey img \<notin> consumed plan \<and> width img = w \<and> height img = h)
                     (filter (\<lambda>img. pageNum img = p) imgs) of
                None \<Rightarrow> plan
              | Some img \<Rightarrow>
                  plan @ [\<lparr> r_pageNum = p, xObjKeyName = k, xObjRef = ref, optimizedImg = img,
                             r_width = w, r_height = h \<rparr>])))"

definition spec_buildReplacementPlan :: "pdf_doc \<Rightarrow> image list \<Rightarrow> replacement list" where
  "spec_buildReplacementPlan doc imgs = foldl (spec_pair imgs doc) [] (spec_page_entries doc)"

subsection \<open>A sample document\<close>

text \<open>One page whose XObject dictionary, object 10, names the images \<open>Im1\<close> (object 11,
  200 by 100) and \<open>Im2\<close> (object 12, 50 by 50); two extracted records of page 1, the
  second one optimized to a JPEG; and collaborators that all succeed.\<close>

definition demo_stream :: "real \<Rightarrow> real \<Rightarrow> bytes \<Rightarrow> pdf_object" where
  "demo_stream w h bs =
     Stream \<lparr> d_Type = Some ''XObject'', d_Subtype = Some ''Image'',
              d_Width = DimNum w, d_Height = DimNum h,
              d_BitsPerComponent = Some 8, d_ColorSpace = Some ''DeviceRGB'',
              d_Filter = Some ''FlateDecode'' \<rparr> bs"

definition demo_doc :: pdf_doc where
  "demo_doc =
     \<lparr> lookup = (\<lambda>ref. if ref = 10 then Some (Dict [(''Im1'', 11), (''Im2'', 12)])
                        else if ref = 11 then Some (demo_stream 200 100 [7, 7])
                        else if ref = 12 then Some (demo_stream 50 50 [8])
                        else None),
       pages = [Some 10],
       nextRef = 13 \<rparr>"

definition demo_image :: "nat \<Rightarrow> real \<Rightarrow> real \<Rightarrow> string option \<Rightarrow> image" where
  "demo_image i w h opt =
     \<lparr> index = i, dataURL = ''data:image/png;base64,AAAA'', originalSize = 3,
       width = w, height = h, pageNum = 1, imageName = ''page-1-Im'',
       isOptimized = (opt \<noteq> None), optimizedDataURL = opt, optimizedSize = 0 \<rparr>"

definition demo_images :: "image list" where
  "demo_images =
     [demo_image 0 50 50 (Some ''data:image/jpeg;base64,BBBB''),
      demo_image 1 200 100 None]"

definition demo_env :: save_env where
  "demo_env =
     \<lparr> pdfLib_loaded = True,
       load = (\<lambda>bs. Some demo_doc),
       fetch = (\<lambda>url. if url = ''data:image/png;base64,AAAA'' then Some [1, 2, 3]
                        else if url = ''data:image/jpeg;base64,BBBB'' then Some [4, 5]
                        else None),
       embedPng_ok = (\<lambda>bs. True),
       save = (\<lambda>doc. Some [nextRef doc]) \<rparr>"

definition demo_replacement :: "string \<Rightarrow> nat \<Rightarrow> image \<Rightarrow> replacement" where
  "demo_replacement k ref img =
     \<lparr> r_pageNum = 1, xObjKeyName = k, xObjRef = ref, optimizedImg = img,
       r_width = width img, r_height = height img \<rparr>"


section \<open>Properties of the operator scan\<close>

subsection \<open>The trackers\<close>

lemma tracker_inv_init: "tracker_inv (page_init imgs idx)"
  by (simp add: tracker_inv_def page_init_def)

lemma push_image_trackers:
  assumes "\<And>t. transformStack (after t) = transformStack t"
      and "\<And>t. currentTransform (after t) = currentTransform t"
      and "\<And>t. clippingStack (after t) = clippingStack t"
      and "\<And>t. currentClipBounds (after t) = currentClipBounds t"
  shows "transformStack (push_image pn url w h nm after s) = transformStack s"
    and "currentTransform (push_image pn url w h nm after s) = currentTransform s"
    and "clippingStack (push_image pn url w h nm after s) = clippingStack s"
    and "currentClipBounds (push_image pn url w h nm after s) = currentClipBounds s"
  using assms by (simp_all add: push_image_def split: option.splits)

lemma do_shadingFill_trackers:
  "transformStack (do_shadingFill pn pg s) = transformStack s"
  "currentTransform (do_shadingFill pn pg s) = currentTransform s"
  "clippingStack (do_shadingFill pn pg s) = clippingStack s"
  "currentClipBounds (do_shadingFill pn pg s) = currentClipBounds s"
  by (simp_all add: do_shadingFill_def push_image_trackers split: option.splits prod.splits)

lemma do_paint_trackers:
  "transformStack (do_paint pn pg isf nm s) = transformStack s"
  "currentTransform (do_paint pn pg isf nm s) = currentTransform s"
  "clippingStack (do_paint pn pg isf nm s) = clippingStack s"
  "currentClipBounds (do_paint pn pg isf nm s) = currentClipBounds s"
  by (simp_all add: do_paint_def extract_bitmap_def extract_form_def Let_def push_image_trackers
        split: option.splits prod.splits)

lemma do_constructPath_trackers:
  "transformStack (do_constructPath pd s) = transformStack s"
  "currentTransform (do_constructPath pd s) = currentTransform s"
  "clippingStack (do_constructPath pd s) = clippingStack s"
  by (simp_all add: do_constructPath_def split: option.splits list.splits)

lemma tracker_inv_cong:
  "transformStack t = transformStack s \<Longrightarrow> currentTransform t = currentTransform s \<Longrightarrow>
   clippingStack t = clippingStack s \<Longrightarrow> tracker_inv s \<Longrightarrow> tracker_inv t"
  by (simp add: tracker_inv_def)

lemma tracker_inv_save: "tracker_inv s \<Longrightarrow> tracker_inv (do_save s)"
  by (simp add: tracker_inv_def do_save_def)

lemma set_top_snoc: "set_top (ts @ [x]) m = ts @ [m]"
  by (simp add: set_top_def)

lemma tracker_inv_restore: "tracker_inv s \<Longrightarrow> tracker_inv (do_restore s)"
proof -
  assume inv: "tracker_inv s"
  show ?thesis
  proof (cases "clippingStack s" rule: rev_cases)
    case Nil
    with inv show ?thesis by (simp add: tracker_inv_def do_restore_def)
  next
    case (snoc cs c)
    with inv have len: "length (transformStack s) = Suc (Suc (length cs))"
      by (simp add: tracker_inv_def)
    then have "butlast (transformStack s) \<noteq> []"
      by (cases "transformStack s" rule: rev_cases) auto
    with snoc len show ?thesis
      by (simp add: tracker_inv_def do_restore_def Let_def)
  qed
qed

lemma tracker_inv_transform: "tracker_inv s \<Longrightarrow> tracker_inv (do_transform m s)"
  by (cases "transformStack s" rule: rev_cases)
     (auto simp: tracker_inv_def do_transform_def Let_def set_top_snoc)

lemma tracker_inv_shadingFill: "tracker_inv s \<Longrightarrow> tracker_inv (do_shadingFill pn pg s)"
  by (simp add: tracker_inv_def do_shadingFill_trackers)

lemma tracker_inv_paint: "tracker_inv s \<Longrightarrow> tracker_inv (do_paint pn pg isf nm s)"
  by (simp add: tracker_inv_def do_paint_trackers)

lemma tracker_inv_constructPath: "tracker_inv s \<Longrightarrow> tracker_inv (do_constructPath pd s)"
  by (simp add: tracker_inv_def do_constructPath_trackers)

lemma tracker_inv_dependency: "tracker_inv s \<Longrightarrow> tracker_inv (s\<lparr>lastDependencyName := n\<rparr>)"
  by (simp add: tracker_inv_def)

lemma tracker_inv_step:
  assumes "tracker_inv s" and "step pn pg s op = Inr t"
  shows "tracker_inv t"
  using assms
  by (cases op)
     (auto intro: tracker_inv_save tracker_inv_restore tracker_inv_transform
        tracker_inv_shadingFill tracker_inv_paint tracker_inv_constructPath
        tracker_inv_dependency)

lemma tracker_inv_scan:
  "tracker_inv s \<Longrightarrow> scan pn pg ops s = Inr t \<Longrightarrow> tracker_inv t"
  by (induction ops arbitrary: s) (auto split: sum.splits dest: tracker_inv_step)

lemma scan_append:
  "scan pn pg (xs @ ys) s = (case scan pn pg xs s of Inl e \<Rightarrow> Inl e | Inr t \<Rightarrow> scan pn pg ys t)"
  by (induction xs arbitrary: s) (auto split: sum.splits)

lemma restore_save: "tracker_inv s \<Longrightarrow> do_restore (do_save s) = s"
  by (simp add: tracker_inv_def do_restore_def do_save_def)

lemma scan_save_restore:
  "scan pn pg mid (do_save s) = Inr u \<Longrightarrow>
     scan pn pg (Save # mid @ [Restore]) s = Inr (do_restore u)"
  by (simp add: scan_append)

lemma save_restore_balanced:
  "tracker_inv s \<Longrightarrow> scan pn pg (replicate n Save @ replicate n Restore) s = Inr s"
proof (induction n arbitrary: s)
  case 0
  then show ?case by simp
next
  case (Suc n)
  have split: "replicate (Suc n) Save @ replicate (Suc n) Restore
          = Save # (replicate n Save @ replicate n Restore) @ [Restore]"
    by (simp add: replicate_append_same)
  have "scan pn pg (replicate n Save @ replicate n Restore) (do_save s) = Inr (do_save s)"
    using Suc.IH [of "do_save s"] Suc.prems by (simp add: tracker_inv_save)
  then have "scan pn pg (Save # (replicate n Save @ replicate n Restore) @ [Restore]) s
               = Inr (do_restore (do_save s))"
    by (rule scan_save_restore)
  with split Suc.prems show ?case
    by (simp only: restore_save)
qed

lemma restore_at_depth_one:
  "length (transformStack s) = 1 \<Longrightarrow>
     transformStack (do_restore s) = transformStack s \<and>
     currentTransform (do_restore s) = currentTransform s"
  by (simp add: do_restore_def Let_def)

subsection \<open>Transform composition\<close>

text \<open>
  C1.  With the top of the transform stack \<open>(a0, b0, c0, d0, e0, f0)\<close>, a \<open>transform\<close>
  operator with arguments \<open>(a, b, c, d, e, f)\<close> replaces the top by
  \<open>(a*a0 + b*c0, a*b0 + b*d0, c*a0 + d*c0, c*b0 + d*d0, e*a0 + f*c0 + e0, e*b0 + f*d0 + f0)\<close>
  and changes nothing else.  Two transform operators A then B from the start of a page
  leave the same state as the one operator whose matrix is that product of B onto A.
\<close>

theorem transform_composition:
  "(tracker_inv s \<and> currentTransform s = (a0, b0, c0, d0, e0, f0) \<longrightarrow>
      step pn pg s (Transform (a, b, c, d, e, f)) =
        Inr (s\<lparr> currentTransform :=
                  (a * a0 + b * c0, a * b0 + b * d0, c * a0 + d * c0, c * b0 + d * d0,
                   e * a0 + f * c0 + e0, e * b0 + f * d0 + f0),
                transformStack := butlast (transformStack s) @
                  [(a * a0 + b * c0, a * b0 + b * d0, c * a0 + d * c0, c * b0 + d * d0,
                    e * a0 + f * c0 + e0, e * b0 + f * d0 + f0)] \<rparr>))
   \<and> scan pn pg [Transform (a1, b1, c1, d1, e1, f1), Transform (a2, b2, c2, d2, e2, f2)]
         (page_init imgs idx) =
       scan pn pg [Transform (a2 * a1 + b2 * c1, a2 * b1 + b2 * d1, c2 * a1 + d2 * c1,
                              c2 * b1 + d2 * d1, e2 * a1 + f2 * c1 + e1, e2 * b1 + f2 * d1 + f1)]
         (page_init imgs idx)
   \<and> (\<exists>t. scan pn pg [Transform (a1, b1, c1, d1, e1, f1), Transform (a2, b2, c2, d2, e2, f2)]
              (page_init imgs idx) = Inr t \<and>
            currentTransform t =
              (a2 * a1 + b2 * c1, a2 * b1 + b2 * d1, c2 * a1 + d2 * c1,
               c2 * b1 + d2 * d1, e2 * a1 + f2 * c1 + e1, e2 * b1 + f2 * d1 + f1) \<and>
            transformStack t = [currentTransform t])"
proof (intro conjI impI)
  assume h: "tracker_inv s \<and> currentTransform s = (a0, b0, c0, d0, e0, f0)"
  then obtain ts where ts: "transformStack s = ts @ [(a0, b0, c0, d0, e0, f0)]"
    by (cases "transformStack s" rule: rev_cases) (auto simp: tracker_inv_def)
  with h show "step pn pg s (Transform (a, b, c, d, e, f)) =
        Inr (s\<lparr> currentTransform :=
                  (a * a0 + b * c0, a * b0 + b * d0, c * a0 + d * c0, c * b0 + d * d0,
                   e * a0 + f * c0 + e0, e * b0 + f * d0 + f0),
                transformStack := butlast (transformStack s) @
                  [(a * a0 + b * c0, a * b0 + b * d0, c * a0 + d * c0, c * b0 + d * d0,
                    e * a0 + f * c0 + e0, e * b0 + f * d0 + f0)] \<rparr>)"
    by (simp add: do_transform_def set_top_snoc Let_def)
next
  show "scan pn pg [Transform (a1, b1, c1, d1, e1, f1), Transform (a2, b2, c2, d2, e2, f2)]
         (page_init imgs idx) =
       scan pn pg [Transform (a2 * a1 + b2 * c1, a2 * b1 + b2 * d1, c2 * a1 + d2 * c1,
                              c2 * b1 + d2 * d1, e2 * a1 + f2 * c1 + e1, e2 * b1 + f2 * d1 + f1)]
         (page_init imgs idx)"
    by (simp add: do_transform_def page_init_def identity_matrix_def set_top_def Let_def)
next
  show "\<exists>t. scan pn pg [Transform (a1, b1, c1, d1, e1, f1), Transform (a2, b2, c2, d2, e2, f2)]
              (page_init imgs idx) = Inr t \<and>
            currentTransform t =
              (a2 * a1 + b2 * c1, a2 * b1 + b2 * d1, c2 * a1 + d2 * c1,
               c2 * b1 + d2 * d1, e2 * a1 + f2 * c1 + e1, e2 * b1 + f2 * d1 + f1) \<and>
            transformStack t = [currentTransform t]"
    by (simp add: do_transform_def page_init_def identity_matrix_def set_top_def Let_def)
qed

theorem transform_composition_witness:
  "tracker_inv (page_init [] 0) \<and> currentTransform (page_init [] 0) = (1, 0, 0, 1, 0, 0) \<and>
   step 1 demo_page (page_init [] 0) (Transform (0, 1, -1, 0, 5, 7)) =
     Inr ((page_init [] 0)\<lparr> currentTransform := (0, 1, -1, 0, 5, 7),
                             transformStack := [(0, 1, -1, 0, 5, 7)] \<rparr>) \<and>
   scan 1 demo_page [Transform (0, 1, -1, 0, 0, 0), Transform (1, 0, 0, 1, 5, 7)] (page_init [] 0) =
     scan 1 demo_page [Transform (0, 1, -1, 0, -7, 5)] (page_init [] 0)"
  using transform_composition [of "page_init [] 0" 1 0 0 1 0 0 1 demo_page 0 1 "-1" 0 5 7
          0 1 "-1" 0 0 0 1 0 0 1 5 7 "[]" 0]
  by (simp add: tracker_inv_init) (simp add: page_init_def identity_matrix_def do_transform_def set_top_def Let_def)

subsection \<open>Stack balance\<close>

text \<open>
  C3.  From any state the scan can reach, \<open>n\<close> \<open>save\<close> operators followed by \<open>n\<close>
  \<open>restore\<close> operators give back the same state, in particular the same current
  transform and the same current clip bounds.  The transform stack of a reachable state
  always holds at least one frame, and a \<open>restore\<close> at depth one leaves the stack and the
  current transform as they are.
\<close>

theorem save_restore_balance:
  "(scan pn pg pre (page_init imgs idx) = Inr s \<longrightarrow>
      scan pn pg (pre @ replicate n Save @ replicate n Restore) (page_init imgs idx) = Inr s)
   \<and> (scan pn pg ops (page_init imgs idx) = Inr t \<longrightarrow> length (transformStack t) \<ge> 1)
   \<and> (length (transformStack u) = 1 \<longrightarrow>
        transformStack (do_restore u) = transformStack u \<and>
        currentTransform (do_restore u) = currentTransform u \<and>
        (\<exists>u'. step pn pg u Restore = Inr u' \<and> transformStack u' = transformStack u))"
proof (intro conjI impI)
  assume pre: "scan pn pg pre (page_init imgs idx) = Inr s"
  then have "tracker_inv s"
    using tracker_inv_scan tracker_inv_init by blast
  with pre show "scan pn pg (pre @ replicate n Save @ replicate n Restore) (page_init imgs idx) = Inr s"
    by (simp add: scan_append [of pn pg pre] save_restore_balanced)
next
  assume "scan pn pg ops (page_init imgs idx) = Inr t"
  then have "tracker_inv t"
    using tracker_inv_scan tracker_inv_init by blast
  then show "length (transformStack t) \<ge> 1"
    by (simp add: tracker_inv_def)
next
  assume "length (transformStack u) = 1"
  then show "transformStack (do_restore u) = transformStack u"
    and "currentTransform (do_restore u) = currentTransform u"
    and "\<exists>u'. step pn pg u Restore = Inr u' \<and> transformStack u' = transformStack u"
    using restore_at_depth_one by simp_all
qed

theorem save_restore_balance_witness:
  "scan 1 demo_page ([Save, Transform (2, 0, 0, 2, 1, 1), ConstructPath (Some [0, 0, 4, 4])]
               @ replicate 2 Save @ replicate 2 Restore) (page_init [] 0) =
     Inr \<lparr> transformStack = [(1, 0, 0, 1, 0, 0), (2, 0, 0, 2, 1, 1)],
           currentTransform = (2, 0, 0, 2, 1, 1),
           clippingStack = [None],
           currentClipBounds = Some \<lparr> minX = 0, minY = 0, maxX = 4, maxY = 4 \<rparr>,
           shadingIndex = 0, lastDependencyName = Missing, extractedObjects = {},
           allImages = [], imageIndex = 0 \<rparr>
   \<and> (\<exists>t. scan 1 demo_page [Restore, Restore] (page_init [] 0) = Inr t \<and> length (transformStack t) \<ge> 1)
   \<and> transformStack (do_restore (page_init [] 0)) = [(1, 0, 0, 1, 0, 0)]"
proof -
  let ?pre = "[Save, Transform (2, 0, 0, 2, 1, 1), ConstructPath (Some [0, 0, 4, 4])]"
  let ?s = "\<lparr> transformStack = [(1, 0, 0, 1, 0, 0), (2, 0, 0, 2, 1, 1)],
           currentTransform = (2, 0, 0, 2, 1, 1),
           clippingStack = [None],
           currentClipBounds = Some \<lparr> minX = 0, minY = 0, maxX = 4, maxY = 4 \<rparr>,
           shadingIndex = 0, lastDependencyName = Missing, extractedObjects = {},
           allImages = [], imageIndex = 0 \<rparr>"
  have pre: "scan 1 demo_page ?pre (page_init [] 0) = Inr ?s"
    by (simp add: page_init_def identity_matrix_def do_save_def do_transform_def set_top_def
          do_constructPath_def Let_def)
  have two: "scan 1 demo_page [Restore, Restore] (page_init [] 0) = Inr (page_init [] 0)"
    by (simp add: page_init_def identity_matrix_def do_restore_def Let_def)
  have one: "length (transformStack (page_init [] 0)) = 1"
    by (simp add: page_init_def)
  from save_restore_balance [of 1 demo_page ?pre "[]" 0 ?s 2 "[Restore, Restore]" "page_init [] 0" "page_init [] 0"]
    pre two one
  show ?thesis
    by (simp add: page_init_def identity_matrix_def)
qed

subsection \<open>Short paths\<close>

text \<open>
  C10.  A \<open>constructPath\<close> operator whose coordinate array is absent or has fewer than
  four entries changes nothing: the clip bounds of an earlier path stay current, and the
  \<open>clip\<close> and \<open>shadingFill\<close> operators that follow see them.
\<close>

theorem short_path_keeps_clip_bounds:
  "pd = None \<or> (\<exists>xs. pd = Some xs \<and> length xs < 4) \<Longrightarrow>
     step pn pg s (ConstructPath pd) = Inr s \<and>
     currentClipBounds (do_constructPath pd s) = currentClipBounds s \<and>
     scan pn pg (ConstructPath pd # Clip # ShadingFill # rest) s =
       scan pn pg (Clip # ShadingFill # rest) s"
  by (auto simp: do_constructPath_def)

theorem short_path_keeps_clip_bounds_witness:
  "scan 1 demo_page [ConstructPath (Some [0, 0, 10, 10]), ConstructPath (Some [50, 60]), Clip, ShadingFill]
      (page_init [] 0) =
   scan 1 demo_page [ConstructPath (Some [0, 0, 10, 10]), Clip, ShadingFill] (page_init [] 0)
   \<and> (\<exists>t. scan 1 demo_page
              [ConstructPath (Some [0, 0, 10, 10]), ConstructPath (Some [50, 60]), Clip, ShadingFill]
              (page_init [] 0) = Inr t \<and>
            map imageName (allImages t) = [''page-1-shading-0''] \<and>
            map width (allImages t) = [20])"
proof -
  let ?s = "do_constructPath (Some [0, 0, 10, 10]) (page_init [] 0)"
  have "Some [50, 60 :: real] = None \<or> (\<exists>xs. Some [50, 60 :: real] = Some xs \<and> length xs < 4)"
    by simp
  from short_path_keeps_clip_bounds [OF this, of 1 demo_page ?s "[]"]
  have eq: "scan 1 demo_page (ConstructPath (Some [50, 60]) # Clip # ShadingFill # []) ?s =
            scan 1 demo_page (Clip # ShadingFill # []) ?s"
    by simp
  have run: "\<exists>t. scan 1 demo_page [Clip, ShadingFill] ?s = Inr t \<and>
            map imageName (allImages t) = [''page-1-shading-0''] \<and>
            map width (allImages t) = [20]"
    by (simp add: do_constructPath_def page_init_def identity_matrix_def do_shadingFill_def
          shading_region_def demo_page_def Let_def push_image_def estimateDataURLSize_def
          shading_name_def nat_to_string.simps)
  from eq run show ?thesis
    by simp
qed

subsection \<open>The dependency name\<close>











subsection \<open>Degenerate forms\<close>

lemma form_size_nonneg: "0 \<le> fst (form_size obj) \<and> 0 \<le> snd (form_size obj)"
  by (simp add: form_size_def split: option.splits)

text \<open>
  C6.  A form-paint operator that reaches the form branch (its object is loaded and has no
  bitmap) with \<open>|a| * width \<le> 1\<close> or \<open>|d| * height \<le> 1\<close>, for the \<open>BBox\<close> size of the
  object, returns normally with the state unchanged: no record, no exception, and the
  rest of the page is scanned as if the operator were not there.
\<close>

theorem degenerate_form_skipped:
  assumes "objs pg (form_name arg (lastDependencyName s)) = Some obj"
      and "\<not> bitmap obj"
      and "currentTransform s = (a, b, c, d, e, f)"
      and "form_size obj = (w, h)"
      and "\<bar>a\<bar> * w \<le> 1 \<or> \<bar>d\<bar> * h \<le> 1"
  shows "step pn pg s (PaintFormXObjectBegin arg) = Inr s \<and>
         scan pn pg (PaintFormXObjectBegin arg # rest) s = scan pn pg rest s"
proof -
  from form_size_nonneg [of obj] assms(4) have "0 \<le> w" "0 \<le> h"
    by simp_all
  then have "transformedWidth (currentTransform s) obj = \<bar>a\<bar> * w"
    and "transformedHeight (currentTransform s) obj = \<bar>d\<bar> * h"
    using assms(3,4) by (simp_all add: transformedWidth_def transformedHeight_def abs_mult)
  with assms(5) have "extract_form pn pg (form_name arg (lastDependencyName s)) obj s = s"
    by (auto simp: extract_form_def Let_def split: prod.splits)
  with assms(1,2) have "do_paint pn pg True (form_name arg (lastDependencyName s)) s = s"
    by (simp add: do_paint_def)
  then show ?thesis
    by simp
qed


theorem degenerate_form_skipped_witness:
  "scan 1 demo_page [Transform (0.05, 0, 0, 3, 20, 30), PaintFormXObjectBegin (Str ''Fm1''),
                     PaintImageXObject (Str ''Im1'')] (page_init [] 0) =
   scan 1 demo_page [Transform (0.05, 0, 0, 3, 20, 30), PaintImageXObject (Str ''Im1'')] (page_init [] 0)"
proof -
  let ?s = "do_transform (0.05, 0, 0, 3, 20, 30) (page_init [] 0)"
  let ?obj = "\<lparr> bitmap = False, obj_width = 0, obj_height = 0, dict_BBox = Some [0, 0, 10, 20] \<rparr>"
  have 1: "objs demo_page (form_name (Str ''Fm1'') (lastDependencyName ?s)) = Some ?obj"
    by (simp add: demo_page_def form_name_def)
  have 2: "\<not> bitmap ?obj"
    by simp
  have 3: "currentTransform ?s = (0.05, 0, 0, 3, 20, 30)"
    by (simp add: do_transform_def page_init_def identity_matrix_def Let_def)
  have 4: "form_size ?obj = (10, 20)"
    by (simp add: form_size_def)
  have 5: "\<bar>0.05 :: real\<bar> * 10 \<le> 1 \<or> \<bar>3 :: real\<bar> * 20 \<le> 1"
    by simp
  from degenerate_form_skipped [OF 1 2 3 4 5, of 1 "[PaintImageXObject (Str ''Im1'')]"]
  show ?thesis
    by simp
qed

subsection \<open>Shading fills\<close>

lemma push_image_cases:
  "push_image pn url w h nm after s = s\<lparr> imageIndex := imageIndex s + 1 \<rparr> \<or>
   (\<exists>sz. estimateDataURLSize url = Some sz \<and>
      push_image pn url w h nm after s =
        after (s\<lparr> allImages := allImages s @
                      [\<lparr> index = imageIndex s, dataURL = url, originalSize = sz,
                         width = w, height = h, pageNum = pn, imageName = nm,
                         isOptimized = False, optimizedDataURL = None, optimizedSize = 0 \<rparr>],
                    imageIndex := imageIndex s + 1 \<rparr>))"
  by (simp add: push_image_def split: option.splits)

lemma do_shadingFill_shadingIndex:
  "shadingIndex (do_shadingFill pn pg s) =
     shadingIndex s + (if allImages (do_shadingFill pn pg s) \<noteq> allImages s then 1 else 0)"
  by (simp add: do_shadingFill_def push_image_def split: option.splits prod.splits)

lemma do_paint_shadingIndex:
  "shadingIndex (do_paint pn pg isf nm s) = shadingIndex s"
  by (simp add: do_paint_def extract_bitmap_def extract_form_def Let_def push_image_def
        split: option.splits prod.splits)

lemma do_constructPath_shadingIndex:
  "shadingIndex (do_constructPath pd s) = shadingIndex s"
  by (simp add: do_constructPath_def split: option.splits list.splits)


lemma step_shadingIndex:
  "step pn pg s op = Inr t \<Longrightarrow>
     shadingIndex t = shadingIndex s + (if op = ShadingFill \<and> allImages t \<noteq> allImages s then 1 else 0)"
  by (cases op)
     (auto simp: do_save_def do_restore_def do_transform_def Let_def do_shadingFill_shadingIndex
        do_paint_shadingIndex do_constructPath_shadingIndex)

text \<open>
  C5, as amended.  Without current clip bounds a \<open>shadingFill\<close> operator changes nothing.
  With clip bounds, the corners \<open>(minX, minY)\<close> and \<open>(maxX, maxY)\<close> are mapped through the
  current transform and turned into a canvas region with the vertical flip
  \<open>canvasY = viewport.height - max y1 y2 * scale\<close>.  If the region is more than one pixel
  wide and high and the canvas copy succeeds, one record is pushed, with the region's
  size, the name \<open>page-{n}-shading-{k}\<close> for the current shading counter \<open>k\<close>, and the
  counter goes up by one; if the region is at most one pixel wide or high, or the copy
  throws, nothing changes.  The counter starts at 0 on every page and no other operator
  changes it.
\<close>

theorem shading_fill_extraction:
  "(currentClipBounds s = None \<longrightarrow> step pn pg s ShadingFill = Inr s)
   \<and> (currentClipBounds s = Some cb \<and> currentTransform s = (a, b, c, d, e, f) \<and>
       x1 = minX cb * a + minY cb * c + e \<and> y1 = minX cb * b + minY cb * d + f \<and>
       x2 = maxX cb * a + maxY cb * c + e \<and> y2 = maxX cb * b + maxY cb * d + f \<and>
       canvasX = min x1 x2 * viewport_scale pg \<and>
       canvasY = viewport_height pg - max y1 y2 * viewport_scale pg \<and>
       w = \<bar>x2 - x1\<bar> * viewport_scale pg \<and> h = \<bar>y2 - y1\<bar> * viewport_scale pg \<longrightarrow>
        (w > 1 \<and> h > 1 \<and> region_toDataURL pg canvasX canvasY w h = Some url \<and>
         estimateDataURLSize url = Some sz \<longrightarrow>
           step pn pg s ShadingFill =
             Inr (s\<lparr> allImages := allImages s @
                        [\<lparr> index = imageIndex s, dataURL = url, originalSize = sz,
                           width = w, height = h, pageNum = pn,
                           imageName = ''page-'' @ nat_to_string pn @ ''-shading-'' @
                                       nat_to_string (shadingIndex s),
                           isOptimized = False, optimizedDataURL = None, optimizedSize = 0 \<rparr>],
                      imageIndex := imageIndex s + 1,
                      shadingIndex := shadingIndex s + 1 \<rparr>))
        \<and> (w \<le> 1 \<or> h \<le> 1 \<or> region_toDataURL pg canvasX canvasY w h = None \<longrightarrow>
             step pn pg s ShadingFill = Inr s))
   \<and> shadingIndex (page_init imgs idx) = 0
   \<and> (step pn pg s op = Inr t \<longrightarrow>
        shadingIndex t =
          shadingIndex s + (if op = ShadingFill \<and> allImages t \<noteq> allImages s then 1 else 0))"
proof (intro conjI impI)
  assume "currentClipBounds s = None"
  then show "step pn pg s ShadingFill = Inr s"
    by (simp add: do_shadingFill_def)
next
  assume geo: "currentClipBounds s = Some cb \<and> currentTransform s = (a, b, c, d, e, f) \<and>
       x1 = minX cb * a + minY cb * c + e \<and> y1 = minX cb * b + minY cb * d + f \<and>
       x2 = maxX cb * a + maxY cb * c + e \<and> y2 = maxX cb * b + maxY cb * d + f \<and>
       canvasX = min x1 x2 * viewport_scale pg \<and>
       canvasY = viewport_height pg - max y1 y2 * viewport_scale pg \<and>
       w = \<bar>x2 - x1\<bar> * viewport_scale pg \<and> h = \<bar>y2 - y1\<bar> * viewport_scale pg"
  then have region: "shading_region pg (currentTransform s) cb = (canvasX, canvasY, w, h)"
    by (simp add: shading_region_def Let_def)
  {
    assume ok: "w > 1 \<and> h > 1 \<and> region_toDataURL pg canvasX canvasY w h = Some url \<and>
         estimateDataURLSize url = Some sz"
    with geo region show "step pn pg s ShadingFill =
             Inr (s\<lparr> allImages := allImages s @
                        [\<lparr> index = imageIndex s, dataURL = url, originalSize = sz,
                           width = w, height = h, pageNum = pn,
                           imageName = ''page-'' @ nat_to_string pn @ ''-shading-'' @
                                       nat_to_string (shadingIndex s),
                           isOptimized = False, optimizedDataURL = None, optimizedSize = 0 \<rparr>],
                      imageIndex := imageIndex s + 1,
                      shadingIndex := shadingIndex s + 1 \<rparr>)"
      by (simp add: do_shadingFill_def push_image_def shading_name_def)
  }
  {
    assume "w \<le> 1 \<or> h \<le> 1 \<or> region_toDataURL pg canvasX canvasY w h = None"
    with geo region show "step pn pg s ShadingFill = Inr s"
      by (auto simp: do_shadingFill_def)
  }
next
  show "shadingIndex (page_init imgs idx) = 0"
    by (simp add: page_init_def)
next
  assume "step pn pg s op = Inr t"
  then show "shadingIndex t =
          shadingIndex s + (if op = ShadingFill \<and> allImages t \<noteq> allImages s then 1 else 0)"
    by (rule step_shadingIndex)
qed

text \<open>
  C5 as stated fails: with clip bounds of a single point the region has no area, and the
  operator emits nothing although clip bounds are active.
\<close>

theorem shading_needs_region_counterexample:
  "scan 1 demo_page [ConstructPath (Some [5, 5, 5, 5]), Clip, ShadingFill] (page_init [] 0) =
     Inr ((page_init [] 0)\<lparr> currentClipBounds := Some \<lparr> minX = 5, minY = 5, maxX = 5, maxY = 5 \<rparr> \<rparr>)
   \<and> allImages (page_init [] 0) = []"
  by (simp add: do_constructPath_def do_shadingFill_def shading_region_def Let_def
        page_init_def identity_matrix_def)

theorem shading_fill_extraction_witness:
  "step 3 demo_page
      ((page_init [] 4)\<lparr> currentClipBounds := Some \<lparr> minX = 0, minY = 0, maxX = 10, maxY = 20 \<rparr> \<rparr>)
      ShadingFill =
     Inr ((page_init [] 4)
            \<lparr> currentClipBounds := Some \<lparr> minX = 0, minY = 0, maxX = 10, maxY = 20 \<rparr>,
              allImages := [\<lparr> index = 4, dataURL = ''data:image/png;base64,BBBB'', originalSize = 3,
                              width = 20, height = 40, pageNum = 3,
                              imageName = ''page-3-shading-0'',
                              isOptimized = False, optimizedDataURL = None, optimizedSize = 0 \<rparr>],
              imageIndex := 5, shadingIndex := 1 \<rparr>)
   \<and> step 3 demo_page (page_init [] 4) ShadingFill = Inr (page_init [] 4)"
proof -
  let ?cb = "\<lparr> minX = 0, minY = 0, maxX = 10, maxY = 20 \<rparr>"
  let ?s = "(page_init [] 4)\<lparr> currentClipBounds := Some ?cb \<rparr>"
  let ?url = "''data:image/png;base64,BBBB''"
  have geo: "currentClipBounds ?s = Some ?cb \<and> currentTransform ?s = (1, 0, 0, 1, 0, 0) \<and>
       (0::real) = minX ?cb * 1 + minY ?cb * 0 + 0 \<and> (0::real) = minX ?cb * 0 + minY ?cb * 1 + 0 \<and>
       (10::real) = maxX ?cb * 1 + maxY ?cb * 0 + 0 \<and> (20::real) = maxX ?cb * 0 + maxY ?cb * 1 + 0 \<and>
       (0::real) = min 0 10 * viewport_scale demo_page \<and>
       (160::real) = viewport_height demo_page - max 0 20 * viewport_scale demo_page \<and>
       (20::real) = \<bar>10 - 0\<bar> * viewport_scale demo_page \<and>
       (40::real) = \<bar>20 - 0\<bar> * viewport_scale demo_page"
    by (simp add: page_init_def identity_matrix_def demo_page_def)
  have ok: "(20::real) > 1 \<and> (40::real) > 1 \<and> region_toDataURL demo_page 0 160 20 40 = Some ?url \<and>
         estimateDataURLSize ?url = Some 3"
    by (simp add: demo_page_def estimateDataURLSize_def)
  have none: "currentClipBounds (page_init [] 4) = None"
    by (simp add: page_init_def)
  note inst = shading_fill_extraction [of ?s 3 demo_page ?cb 1 0 0 1 0 0 0 0 10 20 0 160 20 40 ?url 3]
  from inst geo ok
  have a: "step 3 demo_page ?s ShadingFill =
     Inr (?s\<lparr> allImages := allImages ?s @
                        [\<lparr> index = imageIndex ?s, dataURL = ?url, originalSize = 3,
                           width = 20, height = 40, pageNum = 3,
                           imageName = ''page-'' @ nat_to_string 3 @ ''-shading-'' @
                                       nat_to_string (shadingIndex ?s),
                           isOptimized = False, optimizedDataURL = None, optimizedSize = 0 \<rparr>],
                      imageIndex := imageIndex ?s + 1,
                      shadingIndex := shadingIndex ?s + 1 \<rparr>)"
    by blast
  from shading_fill_extraction [of "page_init [] 4" 3 demo_page, THEN conjunct1] none
  have b: "step 3 demo_page (page_init [] 4) ShadingFill = Inr (page_init [] 4)"
    by (rule mp)
  from a b show ?thesis
    by (simp add: page_init_def nat_to_string.simps)
qed

subsection \<open>Deduplication\<close>



























section \<open>Properties of saving\<close>

subsection \<open>Matching\<close>

lemma index_by_page_filter:
  "(case index_by_page imgs m p of None \<Rightarrow> [] | Some l \<Rightarrow> l) =
     (case m p of None \<Rightarrow> [] | Some l \<Rightarrow> l) @ filter (\<lambda>img. pageNum img = p) imgs"
proof (induction imgs arbitrary: m)
  case Nil
  then show ?case by simp
next
  case (Cons img imgs)
  show ?case
    by (simp add: Cons.IH Let_def split: option.splits)
qed

lemma imagesByPage_filter:
  "(case imagesByPage imgs p of None \<Rightarrow> [] | Some l \<Rightarrow> l) = filter (\<lambda>img. pageNum img = p) imgs"
  using index_by_page_filter [of imgs Map.empty p] by (simp add: imagesByPage_def)

lemma find_match_find:
  "find_match imgs matched w h =
     List.find (\<lambda>img. imgKey img \<notin> matched \<and> width img = w \<and> height img = h) imgs"
  by (induction imgs) auto

lemma find_match_Some:
  "find_match imgs matched w h = Some img \<Longrightarrow> imgKey img \<notin> matched"
  by (induction imgs) (auto split: if_splits)

lemma match_entry_cases:
  assumes "match_entry doc byPage pn (k, ref) (reps, matched) = (reps', matched')"
  shows "(reps' = reps \<and> matched' = matched) \<or>
         (\<exists>r. imgKey (optimizedImg r) \<notin> matched \<and> r_pageNum r = pn \<and> xObjKeyName r = k \<and>
              reps' = reps @ [r] \<and> matched' = insert (imgKey (optimizedImg r)) matched)"
  using assms
  by (auto simp: match_entry_def Let_def
        split: option.splits pdf_object.splits pdf_dim.splits if_splits dest: find_match_Some)

lemma match_entries_records:
  assumes "match_entries doc byPage pn es (reps, matched) = (reps', matched')"
      and "distinct (map (\<lambda>r. imgKey (optimizedImg r)) reps)"
      and "(\<lambda>r. imgKey (optimizedImg r)) ` set reps \<subseteq> matched"
  shows "distinct (map (\<lambda>r. imgKey (optimizedImg r)) reps') \<and>
         (\<lambda>r. imgKey (optimizedImg r)) ` set reps' \<subseteq> matched'"
  using assms
proof (induction es arbitrary: reps matched)
  case Nil
  then show ?case by simp
next
  case (Cons e es)
  obtain k ref where e: "e = (k, ref)" by (cases e)
  obtain reps1 matched1 where step: "match_entry doc byPage pn (k, ref) (reps, matched) = (reps1, matched1)"
    by (cases "match_entry doc byPage pn (k, ref) (reps, matched)")
  from match_entry_cases [OF step]
  consider (same) "reps1 = reps" "matched1 = matched"
    | (added) r where "imgKey (optimizedImg r) \<notin> matched" "reps1 = reps @ [r]"
        "matched1 = insert (imgKey (optimizedImg r)) matched"
    by blast
  then have "distinct (map (\<lambda>r. imgKey (optimizedImg r)) reps1) \<and>
        (\<lambda>r. imgKey (optimizedImg r)) ` set reps1 \<subseteq> matched1"
  proof cases
    case same
    with Cons.prems(2,3) show ?thesis by simp
  next
    case added
    from added(1) Cons.prems(3)
    have "imgKey (optimizedImg r) \<notin> (\<lambda>r. imgKey (optimizedImg r)) ` set reps"
      by blast
    with added Cons.prems(2,3) show ?thesis
      by auto
  qed
  with Cons.IH [of reps1 matched1] Cons.prems(1) e step show ?case
    by simp
qed

lemma match_pages_records:
  assumes "match_pages doc byPage pn vs (reps, matched) = (reps', matched')"
      and "distinct (map (\<lambda>r. imgKey (optimizedImg r)) reps)"
      and "(\<lambda>r. imgKey (optimizedImg r)) ` set reps \<subseteq> matched"
  shows "distinct (map (\<lambda>r. imgKey (optimizedImg r)) reps')"
  using assms
proof (induction vs arbitrary: pn reps matched)
  case Nil
  then show ?case by simp
next
  case (Cons v vs)
  show ?case
  proof (cases "xobject_entries doc v")
    case None
    with Cons.IH [of "pn + 1" reps matched] Cons.prems show ?thesis by simp
  next
    case (Some p)
    obtain addr es where p: "p = (addr, es)" by (cases p)
    obtain reps1 matched1 where m: "match_entries doc byPage pn es (reps, matched) = (reps1, matched1)"
      by (cases "match_entries doc byPage pn es (reps, matched)")
    from match_entries_records [OF m Cons.prems(2,3)] Cons.IH [of "pn + 1" reps1 matched1]
      Cons.prems(1) Some p m
    show ?thesis by simp
  qed
qed

lemma match_entries_xobjects:
  assumes "match_entries doc byPage pn es (reps, matched) = (reps', matched')"
      and "distinct (map fst es)"
      and "distinct (map (\<lambda>r. (r_pageNum r, xObjKeyName r)) reps)"
      and "\<forall>r\<in>set reps. r_pageNum r \<le> pn"
      and "\<forall>r\<in>set reps. r_pageNum r = pn \<longrightarrow> xObjKeyName r \<notin> fst ` set es"
  shows "distinct (map (\<lambda>r. (r_pageNum r, xObjKeyName r)) reps') \<and> (\<forall>r\<in>set reps'. r_pageNum r \<le> pn)"
  using assms
proof (induction es arbitrary: reps matched)
  case Nil
  then show ?case by simp
next
  case (Cons e es)
  obtain k ref where e: "e = (k, ref)" by (cases e)
  obtain reps1 matched1 where step: "match_entry doc byPage pn (k, ref) (reps, matched) = (reps1, matched1)"
    by (cases "match_entry doc byPage pn (k, ref) (reps, matched)")
  from Cons.prems(2) e have k: "k \<notin> fst ` set es" and d: "distinct (map fst es)"
    by auto
  from Cons.prems(5) e
  have old_k: "\<forall>r\<in>set reps. r_pageNum r = pn \<longrightarrow> xObjKeyName r \<noteq> k"
    and old_es: "\<forall>r\<in>set reps. r_pageNum r = pn \<longrightarrow> xObjKeyName r \<notin> fst ` set es"
    by auto
  from match_entry_cases [OF step]
  consider (same) "reps1 = reps"
    | (added) r where "r_pageNum r = pn" "xObjKeyName r = k" "reps1 = reps @ [r]"
    by blast
  then have "distinct (map (\<lambda>r. (r_pageNum r, xObjKeyName r)) reps1) \<and>
        (\<forall>r\<in>set reps1. r_pageNum r \<le> pn) \<and>
        (\<forall>r\<in>set reps1. r_pageNum r = pn \<longrightarrow> xObjKeyName r \<notin> fst ` set es)"
  proof cases
    case same
    with Cons.prems(3,4) old_es show ?thesis by simp
  next
    case added
    from added(1,2) old_k
    have "(r_pageNum r, xObjKeyName r) \<notin> (\<lambda>r. (r_pageNum r, xObjKeyName r)) ` set reps"
      by auto
    with added Cons.prems(3,4) old_es k show ?thesis
      by auto
  qed
  with Cons.IH [of reps1 matched1] Cons.prems(1) e step d show ?case
    by simp
qed

lemma match_pages_xobjects:
  assumes "match_pages doc byPage pn vs (reps, matched) = (reps', matched')"
      and "\<forall>addr es. lookup doc addr = Some (Dict es) \<longrightarrow> distinct (map fst es)"
      and "distinct (map (\<lambda>r. (r_pageNum r, xObjKeyName r)) reps)"
      and "\<forall>r\<in>set reps. r_pageNum r < pn"
  shows "distinct (map (\<lambda>r. (r_pageNum r, xObjKeyName r)) reps')"
  using assms
proof (induction vs arbitrary: pn reps matched)
  case Nil
  then show ?case by simp
next
  case (Cons v vs)
  show ?case
  proof (cases "xobject_entries doc v")
    case None
    from Cons.prems(4) have "\<forall>r\<in>set reps. r_pageNum r < pn + 1" by auto
    with Cons.IH [of "pn + 1" reps matched] Cons.prems None show ?thesis by simp
  next
    case (Some p)
    obtain addr es where p: "p = (addr, es)" by (cases p)
    with Some have "lookup doc addr = Some (Dict es)"
      by (auto simp: xobject_entries_def split: option.splits pdf_object.splits)
    with Cons.prems(2) have d: "distinct (map fst es)" by blast
    obtain reps1 matched1 where m: "match_entries doc byPage pn es (reps, matched) = (reps1, matched1)"
      by (cases "match_entries doc byPage pn es (reps, matched)")
    from Cons.prems(4) have le: "\<forall>r\<in>set reps. r_pageNum r \<le> pn"
      and fresh: "\<forall>r\<in>set reps. r_pageNum r = pn \<longrightarrow> xObjKeyName r \<notin> fst ` set es"
      by auto
    from match_entries_xobjects [OF m d Cons.prems(3) le fresh]
    have "distinct (map (\<lambda>r. (r_pageNum r, xObjKeyName r)) reps1)"
      and "\<forall>r\<in>set reps1. r_pageNum r < pn + 1"
      by auto
    with Cons.IH [of "pn + 1" reps1 matched1] Cons.prems(1,2) Some p m
    show ?thesis by simp
  qed
qed

lemma consumed_snoc: "consumed (plan @ [r]) = insert (imgKey (optimizedImg r)) (consumed plan)"
  by (simp add: consumed_def)

lemma match_entry_spec:
  "match_entry doc (imagesByPage imgs) pn (k, ref) (reps, consumed reps) =
     (spec_pair imgs doc reps (pn, k, ref), consumed (spec_pair imgs doc reps (pn, k, ref)))"
proof (cases "spec_image_size doc ref")
  case None
  then have "match_entry doc (imagesByPage imgs) pn (k, ref) (reps, consumed reps) = (reps, consumed reps)"
    by (auto simp: match_entry_def spec_image_size_def
          split: option.splits pdf_object.splits if_splits pdf_dim.splits)
  with None show ?thesis by (simp add: spec_pair_def)
next
  case (Some wh)
  obtain w h where wh: "wh = (w, h)" by (cases wh)
  with Some obtain d c where d: "lookup doc ref = Some (Stream d c)" "d_Subtype d = Some ''Image''"
    "d_Width d = DimNum w" "d_Height d = DimNum h"
    by (auto simp: spec_image_size_def split: option.splits pdf_object.splits if_splits pdf_dim.splits)
  let ?P = "\<lambda>img. imgKey img \<notin> consumed reps \<and> width img = w \<and> height img = h"
  let ?cands = "filter (\<lambda>img. pageNum img = pn) imgs"
  have fm: "find_match ?cands (consumed reps) w h = List.find ?P ?cands"
    by (rule find_match_find)
  show ?thesis
  proof (cases "List.find ?P ?cands")
    case None
    with d fm Some wh show ?thesis
      by (simp add: match_entry_def spec_pair_def imagesByPage_filter)
  next
    case found: (Some img)
    with d fm Some wh show ?thesis
      by (simp add: match_entry_def spec_pair_def imagesByPage_filter consumed_snoc)
  qed
qed

lemma match_entries_spec:
  "match_entries doc (imagesByPage imgs) pn es (reps, consumed reps) =
     (foldl (spec_pair imgs doc) reps (map (\<lambda>(k, ref). (pn, k, ref)) es),
      consumed (foldl (spec_pair imgs doc) reps (map (\<lambda>(k, ref). (pn, k, ref)) es)))"
proof (induction es arbitrary: reps)
  case Nil
  show ?case by simp
next
  case (Cons e es)
  obtain k ref where e: "e = (k, ref)" by (cases e)
  show ?case
    by (simp add: e match_entry_spec Cons.IH)
qed

lemma match_pages_spec:
  "match_pages doc (imagesByPage imgs) pn vs (reps, consumed reps) =
     (foldl (spec_pair imgs doc) reps (spec_entries_of doc (enumerate pn vs)),
      consumed (foldl (spec_pair imgs doc) reps (spec_entries_of doc (enumerate pn vs))))"
proof (induction vs arbitrary: pn reps)
  case Nil
  show ?case by (simp add: spec_entries_of_def)
next
  case (Cons v vs)
  show ?case
  proof (cases "xobject_entries doc v")
    case None
    then show ?thesis
      using Cons.IH [of "Suc pn" reps] by (simp add: spec_entries_of_def)
  next
    case (Some p)
    obtain addr es where p: "p = (addr, es)" by (cases p)
    with Some show ?thesis
      using Cons.IH [of "Suc pn" "foldl (spec_pair imgs doc) reps (map (\<lambda>(k, ref). (pn, k, ref)) es)"]
      by (simp add: spec_entries_of_def match_entries_spec)
  qed
qed

lemma buildReplacementPlan_spec:
  "buildReplacementPlan doc imgs = spec_buildReplacementPlan doc imgs"
  using match_pages_spec [of doc imgs 1 "pages doc" "[]"]
  by (simp add: buildReplacementPlan_def spec_buildReplacementPlan_def spec_page_entries_def
        consumed_def)

text \<open>The listed entries of page \<open>pn\<close> are those of the dictionary the patcher finds for
  that page number.\<close>

lemma spec_entries_of_iff:
  "(p, k, ref) \<in> set (spec_entries_of doc numbered) \<longleftrightarrow>
     (\<exists>v addr es. (p, v) \<in> set numbered \<and> xobject_entries doc v = Some (addr, es) \<and> (k, ref) \<in> set es)"
proof (induction numbered)
  case Nil
  show ?case by (simp add: spec_entries_of_def)
next
  case (Cons x xs)
  obtain q v where x: "x = (q, v)" by (cases x)
  have split: "set (spec_entries_of doc (x # xs)) =
      set (case xobject_entries doc v of None \<Rightarrow> []
           | Some (addr, es) \<Rightarrow> map (\<lambda>(k, ref). (q, k, ref)) es) \<union>
      set (spec_entries_of doc xs)"
    by (simp add: spec_entries_of_def x)
  show ?case
    unfolding split Un_iff Cons.IH
    by (cases "xobject_entries doc v") (auto simp: x)
qed

lemma spec_page_entries_iff:
  "(pn, k, ref) \<in> set (spec_page_entries doc) \<longleftrightarrow>
     (\<exists>addr es. page_xobjects doc pn = Some (addr, es) \<and> (k, ref) \<in> set es)"
proof -
  have "(pn, v) \<in> set (enumerate 1 (pages doc)) \<longleftrightarrow>
          pn \<noteq> 0 \<and> \<not> pn > length (pages doc) \<and> pages doc ! (pn - 1) = v" for v
    by (auto simp: in_set_enumerate_eq)
  then show ?thesis
    by (auto simp: spec_page_entries_def spec_entries_of_iff page_xobjects_def)
qed

lemma spec_pair_no_image:
  "spec_image_size doc ref = None \<Longrightarrow> spec_pair imgs doc plan (p, k, ref) = plan"
  by (simp add: spec_pair_def)

lemma spec_pair_no_record:
  "spec_image_size doc ref = Some (w, h) \<Longrightarrow>
   List.find (\<lambda>img. imgKey img \<notin> consumed plan \<and> width img = w \<and> height img = h)
      (filter (\<lambda>img. pageNum img = p) imgs) = None \<Longrightarrow>
   spec_pair imgs doc plan (p, k, ref) = plan"
  by (simp add: spec_pair_def)

lemma spec_pair_record:
  "spec_image_size doc ref = Some (w, h) \<Longrightarrow>
   List.find (\<lambda>img. imgKey img \<notin> consumed plan \<and> width img = w \<and> height img = h)
      (filter (\<lambda>img. pageNum img = p) imgs) = Some img \<Longrightarrow>
   spec_pair imgs doc plan (p, k, ref) =
     plan @ [\<lparr> r_pageNum = p, xObjKeyName = k, xObjRef = ref, optimizedImg = img,
                r_width = w, r_height = h \<rparr>]"
  by (simp add: spec_pair_def)

lemma spec_pair_prefix: "\<exists>suffix. spec_pair imgs doc plan e = plan @ suffix"
  by (auto simp: spec_pair_def split: prod.splits option.splits)

lemma spec_fold_prefix: "\<exists>suffix. foldl (spec_pair imgs doc) plan es = plan @ suffix"
proof (induction es arbitrary: plan)
  case Nil
  show ?case by simp
next
  case (Cons e es)
  obtain s1 where s1: "spec_pair imgs doc plan e = plan @ s1"
    using spec_pair_prefix by blast
  obtain s2 where "foldl (spec_pair imgs doc) (plan @ s1) es = (plan @ s1) @ s2"
    using Cons.IH by blast
  with s1 show ?case by simp
qed

lemma spec_fold_keeps: "set plan \<subseteq> set (foldl (spec_pair imgs doc) plan es)"
  using spec_fold_prefix [of imgs doc plan es] by auto

lemma spec_fold_all:
  assumes "\<forall>r\<in>set plan. Q r"
      and "\<And>p k ref w h img. (p, k, ref) \<in> set es \<Longrightarrow> spec_image_size doc ref = Some (w, h) \<Longrightarrow>
             img \<in> set imgs \<Longrightarrow> pageNum img = p \<Longrightarrow> width img = w \<Longrightarrow> height img = h \<Longrightarrow>
             Q \<lparr> r_pageNum = p, xObjKeyName = k, xObjRef = ref, optimizedImg = img,
                 r_width = w, r_height = h \<rparr>"
  shows "\<forall>r\<in>set (foldl (spec_pair imgs doc) plan es). Q r"
  using assms
proof (induction es arbitrary: plan)
  case Nil
  then show ?case by simp
next
  case (Cons e es)
  obtain p k ref where e: "e = (p, k, ref)" by (cases e)
  have "\<forall>r\<in>set (spec_pair imgs doc plan (p, k, ref)). Q r"
  proof (cases "spec_image_size doc ref")
    case None
    with Cons.prems(1) show ?thesis by (simp add: spec_pair_no_image)
  next
    case (Some wh)
    obtain w h where wh: "wh = (w, h)" by (cases wh)
    let ?P = "\<lambda>img. imgKey img \<notin> consumed plan \<and> width img = w \<and> height img = h"
    let ?cands = "filter (\<lambda>img. pageNum img = p) imgs"
    show ?thesis
    proof (cases "List.find ?P ?cands")
      case None
      with Some wh Cons.prems(1) show ?thesis by (simp add: spec_pair_no_record)
    next
      case found: (Some img)
      then have "img \<in> set imgs" "pageNum img = p" "width img = w" "height img = h"
        by (auto simp: find_Some_iff dest: nth_mem)
      with Cons.prems(2) [of p k ref w h img] e Some wh
      have "Q \<lparr> r_pageNum = p, xObjKeyName = k, xObjRef = ref, optimizedImg = img,
                 r_width = w, r_height = h \<rparr>"
        by simp
      with Some wh found Cons.prems(1) show ?thesis
        by (simp add: spec_pair_record)
    qed
  qed
  moreover have "\<And>p k ref w h img. (p, k, ref) \<in> set es \<Longrightarrow> spec_image_size doc ref = Some (w, h) \<Longrightarrow>
             img \<in> set imgs \<Longrightarrow> pageNum img = p \<Longrightarrow> width img = w \<Longrightarrow> height img = h \<Longrightarrow>
             Q \<lparr> r_pageNum = p, xObjKeyName = k, xObjRef = ref, optimizedImg = img,
                 r_width = w, r_height = h \<rparr>"
    using Cons.prems(2) by simp
  ultimately show ?case
    using Cons.IH [of "spec_pair imgs doc plan (p, k, ref)"] e by simp
qed

lemma spec_fold_complete:
  assumes "(p, k, ref) \<in> set es" and "spec_image_size doc ref = Some (w, h)"
      and "\<forall>r\<in>set (foldl (spec_pair imgs doc) plan es). \<not> (r_pageNum r = p \<and> xObjKeyName r = k)"
      and "img \<in> set imgs" and "pageNum img = p" and "width img = w" and "height img = h"
  shows "imgKey img \<in> consumed (foldl (spec_pair imgs doc) plan es)"
  using assms(1,3)
proof (induction es arbitrary: plan)
  case Nil
  then show ?case by simp
next
  case (Cons e es)
  let ?plan1 = "spec_pair imgs doc plan e"
  have final: "foldl (spec_pair imgs doc) plan (e # es) = foldl (spec_pair imgs doc) ?plan1 es"
    by simp
  show ?case
  proof (cases "e = (p, k, ref)")
    case False
    with Cons.prems(1) have "(p, k, ref) \<in> set es" by auto
    from Cons.IH [OF this, of ?plan1] Cons.prems(2) show ?thesis by simp
  next
    case True
    let ?P = "\<lambda>img. imgKey img \<notin> consumed plan \<and> width img = w \<and> height img = h"
    let ?cands = "filter (\<lambda>img. pageNum img = p) imgs"
    show ?thesis
    proof (cases "List.find ?P ?cands")
      case None
      from assms(4,5) have "img \<in> set ?cands" by simp
      with None assms(6,7) have "imgKey img \<in> consumed plan"
        by (auto simp: find_None_iff)
      moreover have "consumed plan \<subseteq> consumed (foldl (spec_pair imgs doc) plan (e # es))"
        using spec_fold_keeps [of plan imgs doc "e # es"] by (auto simp: consumed_def)
      ultimately show ?thesis by blast
    next
      case (Some img')
      let ?r = "\<lparr> r_pageNum = p, xObjKeyName = k, xObjRef = ref, optimizedImg = img',
                r_width = w, r_height = h \<rparr>"
      from spec_pair_record [OF assms(2) Some, of k] True have "?r \<in> set ?plan1" by simp
      with spec_fold_keeps [of ?plan1 imgs doc es] final
      have "?r \<in> set (foldl (spec_pair imgs doc) plan (e # es))" by auto
      with Cons.prems(2) show ?thesis by force
    qed
  qed
qed

lemma spec_image_size_Some:
  "spec_image_size doc ref = Some (w, h) \<longleftrightarrow>
     (\<exists>d c. lookup doc ref = Some (Stream d c) \<and> d_Subtype d = Some ''Image'' \<and>
            d_Width d = DimNum w \<and> d_Height d = DimNum h)"
  by (auto simp: spec_image_size_def split: option.splits pdf_object.splits pdf_dim.splits)

text \<open>
  C2.  An image XObject entry of page \<open>pn\<close> (a stream whose \<open>Subtype\<close> is \<open>Image\<close>, with
  numeric \<open>Width\<close> and \<open>Height\<close>) is paired with the first record, among those of
  \<open>state.pdfImages\<close> whose page number is \<open>pn\<close>, whose key is not yet in the matched set
  and whose width and height are equal to the entry's; the key is then added to the set.
  In the plan no entry, that is no pair of page number and XObject key, occurs twice
  (dictionary keys being distinct), and no record key occurs twice.  The plan of the
  whole pass is the one the specification describes: the image entries of the pages,
  numbered from 1, taken in order, each paired with the first record of its page that
  no earlier pair consumed and that has its size.  So every planned replacement names
  an image entry of the XObject dictionary of its page and a record of that page with
  exactly the entry's width and height; and an image entry that is not planned has no
  record of its page and size left, all of them being consumed by the plan.
\<close>

theorem matching_first_unmatched_exclusive:
  "(lookup doc ref = Some (Stream d c) \<and> d_Subtype d = Some ''Image'' \<and>
    d_Width d = DimNum w \<and> d_Height d = DimNum h \<longrightarrow>
      match_entry doc (imagesByPage imgs) pn (key, ref) (reps, matched) =
        (case List.find (\<lambda>img. imgKey img \<notin> matched \<and> width img = w \<and> height img = h)
                (filter (\<lambda>img. pageNum img = pn) imgs) of
           None \<Rightarrow> (reps, matched)
         | Some img \<Rightarrow>
             (reps @ [\<lparr> r_pageNum = pn, xObjKeyName = key, xObjRef = ref, optimizedImg = img,
                        r_width = w, r_height = h \<rparr>],
              insert (imgKey img) matched)))
   \<and> ((\<forall>addr es. lookup doc addr = Some (Dict es) \<longrightarrow> distinct (map fst es)) \<longrightarrow>
        distinct (map (\<lambda>r. (r_pageNum r, xObjKeyName r)) (buildReplacementPlan doc imgs)))
   \<and> distinct (map (\<lambda>r. imgKey (optimizedImg r)) (buildReplacementPlan doc imgs))
   \<and> buildReplacementPlan doc imgs = spec_buildReplacementPlan doc imgs
   \<and> (\<forall>r\<in>set (buildReplacementPlan doc imgs).
        (\<exists>addr es. page_xobjects doc (r_pageNum r) = Some (addr, es) \<and>
                   (xObjKeyName r, xObjRef r) \<in> set es) \<and>
        (\<exists>d c. lookup doc (xObjRef r) = Some (Stream d c) \<and> d_Subtype d = Some ''Image'' \<and>
               d_Width d = DimNum (r_width r) \<and> d_Height d = DimNum (r_height r)) \<and>
        optimizedImg r \<in> set imgs \<and> pageNum (optimizedImg r) = r_pageNum r \<and>
        width (optimizedImg r) = r_width r \<and> height (optimizedImg r) = r_height r)
   \<and> (page_xobjects doc pn = Some (addr, es) \<and> (key, ref) \<in> set es \<and>
       lookup doc ref = Some (Stream d c) \<and> d_Subtype d = Some ''Image'' \<and>
       d_Width d = DimNum w \<and> d_Height d = DimNum h \<and>
       (\<forall>r\<in>set (buildReplacementPlan doc imgs). \<not> (r_pageNum r = pn \<and> xObjKeyName r = key)) \<and>
       img \<in> set imgs \<and> pageNum img = pn \<and> width img = w \<and> height img = h \<longrightarrow>
        imgKey img \<in> (\<lambda>r. imgKey (optimizedImg r)) ` set (buildReplacementPlan doc imgs))"
proof (intro conjI impI)
  assume h: "lookup doc ref = Some (Stream d c) \<and> d_Subtype d = Some ''Image'' \<and>
    d_Width d = DimNum w \<and> d_Height d = DimNum h"
  let ?P = "\<lambda>img. imgKey img \<notin> matched \<and> width img = w \<and> height img = h"
  let ?cands = "filter (\<lambda>img. pageNum img = pn) imgs"
  have fm: "find_match ?cands matched w h = List.find ?P ?cands"
    by (rule find_match_find)
  show "match_entry doc (imagesByPage imgs) pn (key, ref) (reps, matched) =
        (case List.find ?P ?cands of
           None \<Rightarrow> (reps, matched)
         | Some img \<Rightarrow>
             (reps @ [\<lparr> r_pageNum = pn, xObjKeyName = key, xObjRef = ref, optimizedImg = img,
                        r_width = w, r_height = h \<rparr>],
              insert (imgKey img) matched))"
  proof (cases "List.find ?P ?cands")
    case None
    with h fm show ?thesis
      by (simp add: match_entry_def imagesByPage_filter)
  next
    case (Some img)
    then have "width img = w \<and> height img = h"
      by (auto simp: find_Some_iff)
    with Some h fm show ?thesis
      by (simp add: match_entry_def imagesByPage_filter)
  qed
next
  assume keys: "\<forall>addr es. lookup doc addr = Some (Dict es) \<longrightarrow> distinct (map fst es)"
  obtain reps' matched' where
    run: "match_pages doc (imagesByPage imgs) 1 (pages doc) ([], {}) = (reps', matched')"
    by (cases "match_pages doc (imagesByPage imgs) 1 (pages doc) ([], {})")
  from match_pages_xobjects [OF run keys] run
  show "distinct (map (\<lambda>r. (r_pageNum r, xObjKeyName r)) (buildReplacementPlan doc imgs))"
    by (simp add: buildReplacementPlan_def)
next
  obtain reps' matched' where
    run: "match_pages doc (imagesByPage imgs) 1 (pages doc) ([], {}) = (reps', matched')"
    by (cases "match_pages doc (imagesByPage imgs) 1 (pages doc) ([], {})")
  from match_pages_records [OF run] run
  show "distinct (map (\<lambda>r. imgKey (optimizedImg r)) (buildReplacementPlan doc imgs))"
    by (simp add: buildReplacementPlan_def)
next
  show "buildReplacementPlan doc imgs = spec_buildReplacementPlan doc imgs"
    by (rule buildReplacementPlan_spec)
next
  let ?Q = "\<lambda>r. (\<exists>addr es. page_xobjects doc (r_pageNum r) = Some (addr, es) \<and>
                   (xObjKeyName r, xObjRef r) \<in> set es) \<and>
        (\<exists>d c. lookup doc (xObjRef r) = Some (Stream d c) \<and> d_Subtype d = Some ''Image'' \<and>
               d_Width d = DimNum (r_width r) \<and> d_Height d = DimNum (r_height r)) \<and>
        optimizedImg r \<in> set imgs \<and> pageNum (optimizedImg r) = r_pageNum r \<and>
        width (optimizedImg r) = r_width r \<and> height (optimizedImg r) = r_height r"
  have "\<forall>r\<in>set (foldl (spec_pair imgs doc) [] (spec_page_entries doc)). ?Q r"
  proof (rule spec_fold_all)
    show "\<forall>r\<in>set []. ?Q r" by simp
  next
    fix p k ref w h img
    assume "(p, k, ref) \<in> set (spec_page_entries doc)" and "spec_image_size doc ref = Some (w, h)"
      and "img \<in> set imgs" and "pageNum img = p" and "width img = w" and "height img = h"
    then show "?Q \<lparr> r_pageNum = p, xObjKeyName = k, xObjRef = ref, optimizedImg = img,
                 r_width = w, r_height = h \<rparr>"
      by (simp add: spec_page_entries_iff spec_image_size_Some)
  qed
  then show "\<forall>r\<in>set (buildReplacementPlan doc imgs). ?Q r"
    by (simp only: buildReplacementPlan_spec spec_buildReplacementPlan_def)
next
  assume h: "page_xobjects doc pn = Some (addr, es) \<and> (key, ref) \<in> set es \<and>
       lookup doc ref = Some (Stream d c) \<and> d_Subtype d = Some ''Image'' \<and>
       d_Width d = DimNum w \<and> d_Height d = DimNum h \<and>
       (\<forall>r\<in>set (buildReplacementPlan doc imgs). \<not> (r_pageNum r = pn \<and> xObjKeyName r = key)) \<and>
       img \<in> set imgs \<and> pageNum img = pn \<and> width img = w \<and> height img = h"
  then have entry: "(pn, key, ref) \<in> set (spec_page_entries doc)"
    by (auto simp: spec_page_entries_iff)
  from h have size: "spec_image_size doc ref = Some (w, h)"
    by (auto simp: spec_image_size_Some)
  from h have "\<forall>r\<in>set (buildReplacementPlan doc imgs). \<not> (r_pageNum r = pn \<and> xObjKeyName r = key)"
    by blast
  then have none: "\<forall>r\<in>set (foldl (spec_pair imgs doc) [] (spec_page_entries doc)).
                        \<not> (r_pageNum r = pn \<and> xObjKeyName r = key)"
    by (simp only: buildReplacementPlan_spec spec_buildReplacementPlan_def)
  from h have img: "img \<in> set imgs" "pageNum img = pn" "width img = w" "height img = h"
    by simp_all
  from spec_fold_complete [OF entry size none img]
  show "imgKey img \<in> (\<lambda>r. imgKey (optimizedImg r)) ` set (buildReplacementPlan doc imgs)"
    by (simp only: buildReplacementPlan_spec spec_buildReplacementPlan_def consumed_def)
qed

lemma demo_doc_keys:
  "\<forall>addr es. lookup demo_doc addr = Some (Dict es) \<longrightarrow> distinct (map fst es)"
  by (auto simp: demo_doc_def demo_stream_def split: if_splits)

lemma demo_plan:
  "buildReplacementPlan demo_doc demo_images =
     [demo_replacement ''Im1'' 11 (demo_image 1 200 100 None),
      demo_replacement ''Im2'' 12 (demo_image 0 50 50 (Some ''data:image/jpeg;base64,BBBB''))]"
  by (simp add: buildReplacementPlan_def imagesByPage_def demo_doc_def demo_images_def
        xobject_entries_def match_entry_def demo_stream_def Let_def
        demo_image_def imgKey_def nat_to_string.simps demo_replacement_def)

theorem matching_first_unmatched_exclusive_witness:
  "match_entry demo_doc (imagesByPage demo_images) 1 (''Im1'', 11) ([], {}) =
     ([demo_replacement ''Im1'' 11 (demo_image 1 200 100 None)], {''1-1''})
   \<and> distinct (map (\<lambda>r. (r_pageNum r, xObjKeyName r)) (buildReplacementPlan demo_doc demo_images))
   \<and> buildReplacementPlan demo_doc demo_images =
       [demo_replacement ''Im1'' 11 (demo_image 1 200 100 None),
        demo_replacement ''Im2'' 12 (demo_image 0 50 50 (Some ''data:image/jpeg;base64,BBBB''))]"
proof -
  let ?d = "\<lparr> d_Type = Some ''XObject'', d_Subtype = Some ''Image'',
              d_Width = DimNum 200, d_Height = DimNum 100,
              d_BitsPerComponent = Some 8, d_ColorSpace = Some ''DeviceRGB'',
              d_Filter = Some ''FlateDecode'' \<rparr>"
  have h: "lookup demo_doc 11 = Some (Stream ?d [7, 7]) \<and> d_Subtype ?d = Some ''Image'' \<and>
    d_Width ?d = DimNum 200 \<and> d_Height ?d = DimNum 100"
    by (simp add: demo_doc_def demo_stream_def)
  note inst = matching_first_unmatched_exclusive
    [of demo_doc 11 ?d "[7, 7]" 200 100 demo_images 1 "''Im1''" "[]" "{}"]
  from inst h
  have "match_entry demo_doc (imagesByPage demo_images) 1 (''Im1'', 11) ([], {}) =
        (case List.find (\<lambda>img. imgKey img \<notin> {} \<and> width img = 200 \<and> height img = 100)
                (filter (\<lambda>img. pageNum img = 1) demo_images) of
           None \<Rightarrow> ([], {})
         | Some img \<Rightarrow>
             ([] @ [\<lparr> r_pageNum = 1, xObjKeyName = ''Im1'', xObjRef = 11, optimizedImg = img,
                        r_width = 200, r_height = 100 \<rparr>],
              insert (imgKey img) {}))"
    by blast
  then have a: "match_entry demo_doc (imagesByPage demo_images) 1 (''Im1'', 11) ([], {}) =
     ([demo_replacement ''Im1'' 11 (demo_image 1 200 100 None)], {''1-1''})"
    by (simp add: demo_images_def demo_image_def demo_replacement_def imgKey_def nat_to_string.simps)
  from inst demo_doc_keys
  have b: "distinct (map (\<lambda>r. (r_pageNum r, xObjKeyName r)) (buildReplacementPlan demo_doc demo_images))"
    by blast
  from inst have "buildReplacementPlan demo_doc demo_images = spec_buildReplacementPlan demo_doc demo_images"
    by blast
  also have "\<dots> = [demo_replacement ''Im1'' 11 (demo_image 1 200 100 None),
        demo_replacement ''Im2'' 12 (demo_image 0 50 50 (Some ''data:image/jpeg;base64,BBBB''))]"
    by (simp add: spec_buildReplacementPlan_def spec_page_entries_def spec_entries_of_def
          xobject_entries_def demo_doc_def spec_pair_def spec_image_size_def demo_stream_def
          consumed_def demo_images_def demo_image_def imgKey_def nat_to_string.simps
          demo_replacement_def)
  finally have c: "buildReplacementPlan demo_doc demo_images =
       [demo_replacement ''Im1'' 11 (demo_image 1 200 100 None),
        demo_replacement ''Im2'' 12 (demo_image 0 50 50 (Some ''data:image/jpeg;base64,BBBB''))]" .
  from a b c show ?thesis by blast
qed

subsection \<open>Patching\<close>

lemma apply_replacements_append:
  "apply_replacements env (xs @ ys) doc = apply_replacements env ys (apply_replacements env xs doc)"
  by (induction xs arbitrary: doc) simp_all

lemma fetch_fails_skip:
  "fetch env (dataURLToUse (optimizedImg r)) = None \<Longrightarrow> apply_replacement env r doc = doc"
  by (simp add: apply_replacement_def)

lemma dict_set_lookup: "map_of (dict_set es k v) k = Some v"
  by (induction es) auto

lemma xobject_entries_Some:
  "xobject_entries doc v = Some (addr, es) \<Longrightarrow> lookup doc addr = Some (Dict es)"
  by (auto simp: xobject_entries_def split: option.splits pdf_object.splits)

lemma page_xobjects_Some:
  "page_xobjects doc pn = Some (addr, es) \<Longrightarrow> lookup doc addr = Some (Dict es)"
  by (auto simp: page_xobjects_def split: if_splits dest: xobject_entries_Some)

lemma page_xobjects_update:
  assumes "page_xobjects doc pn = Some (addr, es)"
  shows "page_xobjects (doc\<lparr> lookup := (lookup doc)(addr \<mapsto> Dict es') \<rparr>) pn = Some (addr, es')"
  using assms
  by (auto simp: page_xobjects_def xobject_entries_def split: if_splits option.splits pdf_object.splits)

text \<open>What the PNG branch does to the document.\<close>

lemma try_embedPng_True:
  assumes "try_embedPng env r bs doc = (doc', True)"
  shows "\<exists>addr es. page_xobjects doc' (r_pageNum r) = Some (addr, es) \<and>
           map_of es (xObjKeyName r) = Some (nextRef doc) \<and>
           lookup doc' (nextRef doc) = Some (EmbeddedPng bs)"
proof -
  let ?doc1 = "doc\<lparr> lookup := (lookup doc)(nextRef doc \<mapsto> EmbeddedPng bs), nextRef := nextRef doc + 1 \<rparr>"
  from assms obtain addr es where px: "page_xobjects ?doc1 (r_pageNum r) = Some (addr, es)"
    and doc': "doc' = ?doc1\<lparr> lookup := (lookup ?doc1)(addr \<mapsto> Dict (dict_set es (xObjKeyName r) (nextRef doc))) \<rparr>"
    by (auto simp: try_embedPng_def Let_def split: if_splits option.splits)
  from page_xobjects_Some [OF px] have ne: "addr \<noteq> nextRef doc"
    by (auto split: if_splits)
  from page_xobjects_update [OF px] doc'
  have "page_xobjects doc' (r_pageNum r) = Some (addr, dict_set es (xObjKeyName r) (nextRef doc))"
    by simp
  moreover from doc' ne have "lookup doc' (nextRef doc) = Some (EmbeddedPng bs)"
    by simp
  ultimately show ?thesis
    by (auto simp: dict_set_lookup)
qed

lemma manual_replace_lookup:
  "lookup (manual_replace r j bs doc) (xObjRef r) = Some (Stream (manual_dict r j) bs)"
  by (simp add: manual_replace_def)

text \<open>
  C9.  For a replacement whose record has no optimized data, the data URL used is the one
  made at extraction.  When its bytes are fetched and the old object is found, either
  the page's XObject dictionary now maps the key to a new object embedding those bytes,
  or the old object is overwritten by a stream holding them.
\<close>

theorem unoptimized_record_is_reembedded:
  assumes "optimizedDataURL (optimizedImg r) = None"
      and "fetch env (dataURL (optimizedImg r)) = Some imageBytes"
      and "lookup doc (xObjRef r) = Some old"
  shows "dataURLToUse (optimizedImg r) = dataURL (optimizedImg r) \<and>
         ((\<exists>addr es. page_xobjects (apply_replacement env r doc) (r_pageNum r) = Some (addr, es) \<and>
              map_of es (xObjKeyName r) = Some (nextRef doc) \<and>
              lookup (apply_replacement env r doc) (nextRef doc) = Some (EmbeddedPng imageBytes))
          \<or> lookup (apply_replacement env r doc) (xObjRef r) =
               Some (Stream (manual_dict r (str_includes (dataURL (optimizedImg r)) ''image/jpeg''))
                       imageBytes))"
proof
  show url: "dataURLToUse (optimizedImg r) = dataURL (optimizedImg r)"
    using assms(1) by (simp add: dataURLToUse_def)
  let ?url = "dataURL (optimizedImg r)"
  let ?j = "str_includes ?url ''image/jpeg''"
  show "(\<exists>addr es. page_xobjects (apply_replacement env r doc) (r_pageNum r) = Some (addr, es) \<and>
              map_of es (xObjKeyName r) = Some (nextRef doc) \<and>
              lookup (apply_replacement env r doc) (nextRef doc) = Some (EmbeddedPng imageBytes))
          \<or> lookup (apply_replacement env r doc) (xObjRef r) = Some (Stream (manual_dict r ?j) imageBytes)"
  proof (cases "str_includes ?url ''image/png''")
    case False
    with assms url have "apply_replacement env r doc = manual_replace r ?j imageBytes doc"
      by (simp add: apply_replacement_def Let_def)
    then show ?thesis
      by (simp add: manual_replace_lookup)
  next
    case True
    obtain doc1 ok where e: "try_embedPng env r imageBytes doc = (doc1, ok)"
      by (cases "try_embedPng env r imageBytes doc")
    show ?thesis
    proof (cases ok)
      case True
      with e \<open>str_includes ?url ''image/png''\<close> assms url
      have "apply_replacement env r doc = doc1"
        by (simp add: apply_replacement_def Let_def)
      with try_embedPng_True [of env r imageBytes doc doc1] e True show ?thesis
        by simp
    next
      case False
      with e \<open>str_includes ?url ''image/png''\<close> assms url
      have "apply_replacement env r doc = manual_replace r ?j imageBytes doc1"
        by (simp add: apply_replacement_def Let_def)
      then show ?thesis
        by (simp add: manual_replace_lookup)
    qed
  qed
qed

theorem unoptimized_record_is_reembedded_witness:
  "dataURLToUse (demo_image 1 200 100 None) = ''data:image/png;base64,AAAA''
   \<and> lookup (apply_replacement demo_env
               (demo_replacement ''Im1'' 11 (demo_image 1 200 100 None)) demo_doc) 13 =
       Some (EmbeddedPng [1, 2, 3])
   \<and> lookup (apply_replacement demo_env
               (demo_replacement ''Im1'' 11 (demo_image 1 200 100 None)) demo_doc) 10 =
       Some (Dict [(''Im1'', 13), (''Im2'', 12)])"
proof -
  let ?r = "demo_replacement ''Im1'' 11 (demo_image 1 200 100 None)"
  have 1: "optimizedDataURL (optimizedImg ?r) = None"
    by (simp add: demo_replacement_def demo_image_def)
  have 2: "fetch demo_env (dataURL (optimizedImg ?r)) = Some [1, 2, 3]"
    by (simp add: demo_replacement_def demo_image_def demo_env_def)
  have 3: "lookup demo_doc (xObjRef ?r) = Some (demo_stream 200 100 [7, 7])"
    by (simp add: demo_replacement_def demo_doc_def)
  from unoptimized_record_is_reembedded [OF 1 2 3]
  have a: "dataURLToUse (demo_image 1 200 100 None) = ''data:image/png;base64,AAAA''"
    by (simp add: demo_replacement_def demo_image_def)
  have run: "lookup (apply_replacement demo_env ?r demo_doc) =
               (lookup demo_doc)(13 \<mapsto> EmbeddedPng [1, 2, 3], 10 \<mapsto> Dict [(''Im1'', 13), (''Im2'', 12)])"
    by (simp add: apply_replacement_def dataURLToUse_def demo_replacement_def demo_image_def
          demo_env_def try_embedPng_def page_xobjects_def xobject_entries_def demo_doc_def Let_def)
  from a run show ?thesis
    by simp
qed

lemma try_embedPng_keeps_stream:
  assumes "try_embedPng env r bs doc = (doc1, ok)"
      and "lookup doc p = Some (Stream d c)" and "p < nextRef doc"
  shows "lookup doc1 p = Some (Stream d c) \<and> p < nextRef doc1"
proof (cases "embedPng_ok env bs")
  case False
  with assms show ?thesis by (simp add: try_embedPng_def)
next
  case True
  let ?doc1 = "doc\<lparr> lookup := (lookup doc)(nextRef doc \<mapsto> EmbeddedPng bs), nextRef := nextRef doc + 1 \<rparr>"
  from assms(2,3) have keep: "lookup ?doc1 p = Some (Stream d c)" "p < nextRef ?doc1"
    by auto
  show ?thesis
  proof (cases "page_xobjects ?doc1 (r_pageNum r)")
    case None
    with True assms(1) have "doc1 = ?doc1"
      by (simp add: try_embedPng_def Let_def)
    with keep show ?thesis by simp
  next
    case (Some q)
    obtain addr es where q: "q = (addr, es)" by (cases q)
    with Some page_xobjects_Some [of ?doc1 "r_pageNum r" addr es] keep(1)
    have "addr \<noteq> p" by auto
    moreover from True Some q assms(1)
    have "doc1 = ?doc1\<lparr> lookup := (lookup ?doc1)(addr \<mapsto> Dict (dict_set es (xObjKeyName r) (nextRef doc))) \<rparr>"
      by (simp add: try_embedPng_def Let_def)
    ultimately show ?thesis using keep by simp
  qed
qed

lemma apply_replacement_keeps_stream:
  assumes "p \<noteq> xObjRef r"
      and "lookup doc p = Some (Stream d c)" and "p < nextRef doc"
  shows "lookup (apply_replacement env r doc) p = Some (Stream d c) \<and>
         p < nextRef (apply_replacement env r doc)"
proof -
  let ?url = "dataURLToUse (optimizedImg r)"
  show ?thesis
  proof (cases "fetch env ?url")
    case None
    with assms show ?thesis by (simp add: apply_replacement_def)
  next
    case (Some bs)
    show ?thesis
    proof (cases "lookup doc (xObjRef r)")
      case None
      with Some assms show ?thesis by (simp add: apply_replacement_def)
    next
      case old: (Some oldImageObj)
      obtain doc1 ok where e: "try_embedPng env r bs doc = (doc1, ok)"
        by (cases "try_embedPng env r bs doc")
      from try_embedPng_keeps_stream [OF e assms(2,3)]
      have k1: "lookup doc1 p = Some (Stream d c)" "p < nextRef doc1" by simp_all
      from Some old e k1 assms show ?thesis
        by (cases ok) (simp_all add: apply_replacement_def Let_def manual_replace_def)
    qed
  qed
qed

lemma apply_replacements_keeps_stream:
  "p \<notin> xObjRef ` set plan \<Longrightarrow> lookup doc p = Some (Stream d c) \<Longrightarrow> p < nextRef doc \<Longrightarrow>
     lookup (apply_replacements env plan doc) p = Some (Stream d c)"
proof (induction plan arbitrary: doc)
  case Nil
  then show ?case by simp
next
  case (Cons r plan)
  from Cons.prems have "p \<noteq> xObjRef r" and rest: "p \<notin> xObjRef ` set plan" by auto
  from apply_replacement_keeps_stream [OF this(1) Cons.prems(2,3), of env]
    Cons.IH [OF rest, of "apply_replacement env r doc"]
  show ?case by simp
qed

text \<open>
  C8, as amended.  A replacement whose data URL cannot be fetched changes nothing, and the
  plan is applied and saved exactly as if that replacement were not in it; when the
  serializer returns bytes for the patched document the handler returns them.  A PNG
  replacement whose \<open>embedPng\<close> throws is not skipped: the old object is overwritten in
  place.  A stream object that no planned replacement refers to is left as it was.
\<close>

theorem failed_replacement_is_skipped:
  "(fetch env (dataURLToUse (optimizedImg r)) = None \<longrightarrow>
      apply_replacement env r doc = doc \<and>
      apply_replacements env (pre @ r # post) doc = apply_replacements env (pre @ post) doc \<and>
      patch_and_save env (pre @ r # post) doc = patch_and_save env (pre @ post) doc)
   \<and> (save env (apply_replacements env plan doc) = Some out \<longrightarrow>
        patch_and_save env plan doc = Inr out)
   \<and> (fetch env (dataURLToUse (optimizedImg r)) = Some imageBytes \<and>
       lookup doc (xObjRef r) = Some old \<and>
       str_includes (dataURLToUse (optimizedImg r)) ''image/png'' \<and>
       \<not> embedPng_ok env imageBytes \<longrightarrow>
        apply_replacement env r doc =
          manual_replace r (str_includes (dataURLToUse (optimizedImg r)) ''image/jpeg'') imageBytes doc)
   \<and> (p \<notin> xObjRef ` set plan \<and> lookup doc p = Some (Stream d c) \<and> p < nextRef doc \<longrightarrow>
        lookup (apply_replacements env plan doc) p = Some (Stream d c))"
proof (intro conjI impI)
  assume f: "fetch env (dataURLToUse (optimizedImg r)) = None"
  then show "apply_replacement env r doc = doc"
    by (rule fetch_fails_skip)
  from f show eq: "apply_replacements env (pre @ r # post) doc = apply_replacements env (pre @ post) doc"
    by (simp add: apply_replacements_append fetch_fails_skip)
  then show "patch_and_save env (pre @ r # post) doc = patch_and_save env (pre @ post) doc"
    by (simp add: patch_and_save_def)
next
  assume "save env (apply_replacements env plan doc) = Some out"
  then show "patch_and_save env plan doc = Inr out"
    by (simp add: patch_and_save_def)
next
  assume "fetch env (dataURLToUse (optimizedImg r)) = Some imageBytes \<and>
       lookup doc (xObjRef r) = Some old \<and>
       str_includes (dataURLToUse (optimizedImg r)) ''image/png'' \<and>
       \<not> embedPng_ok env imageBytes"
  then show "apply_replacement env r doc =
          manual_replace r (str_includes (dataURLToUse (optimizedImg r)) ''image/jpeg'') imageBytes doc"
    by (simp add: apply_replacement_def try_embedPng_def Let_def)
next
  assume "p \<notin> xObjRef ` set plan \<and> lookup doc p = Some (Stream d c) \<and> p < nextRef doc"
  then show "lookup (apply_replacements env plan doc) p = Some (Stream d c)"
    by (simp add: apply_replacements_keeps_stream)
qed

text \<open>
  C8 as stated fails: when \<open>embedPng\<close> rejects the bytes of a PNG replacement, the
  replacement is not skipped and object 11 does not stay the original.
\<close>

theorem embed_failure_overwrites_counterexample:
  "\<not> embedPng_ok (demo_env\<lparr> embedPng_ok := (\<lambda>bs. False) \<rparr>) [1, 2, 3]
   \<and> lookup demo_doc 11 = Some (demo_stream 200 100 [7, 7])
   \<and> lookup (apply_replacements (demo_env\<lparr> embedPng_ok := (\<lambda>bs. False) \<rparr>)
               [demo_replacement ''Im1'' 11 (demo_image 1 200 100 None)] demo_doc) 11 =
       Some (demo_stream 200 100 [1, 2, 3])
   \<and> demo_stream 200 100 [1, 2, 3] \<noteq> demo_stream 200 100 [7, 7]"
  by (simp add: apply_replacement_def dataURLToUse_def demo_replacement_def demo_image_def
        demo_env_def try_embedPng_def demo_doc_def Let_def manual_replace_def manual_dict_def
        demo_stream_def)

theorem failed_replacement_is_skipped_witness:
  "patch_and_save demo_env
      [demo_replacement ''Im1'' 11 (demo_image 1 200 100 (Some ''data:image/png;base64,broken'')),
       demo_replacement ''Im2'' 12 (demo_image 0 50 50 (Some ''data:image/jpeg;base64,BBBB''))]
      demo_doc = Inr [13]
   \<and> lookup (apply_replacements demo_env
        [demo_replacement ''Im1'' 11 (demo_image 1 200 100 (Some ''data:image/png;base64,broken'')),
         demo_replacement ''Im2'' 12 (demo_image 0 50 50 (Some ''data:image/jpeg;base64,BBBB''))]
        demo_doc) 11 = Some (demo_stream 200 100 [7, 7])
   \<and> lookup (apply_replacements demo_env
        [demo_replacement ''Im1'' 11 (demo_image 1 200 100 (Some ''data:image/png;base64,broken'')),
         demo_replacement ''Im2'' 12 (demo_image 0 50 50 (Some ''data:image/jpeg;base64,BBBB''))]
        demo_doc) 12 =
       Some (Stream \<lparr> d_Type = Some ''XObject'', d_Subtype = Some ''Image'',
                      d_Width = DimNum 50, d_Height = DimNum 50,
                      d_BitsPerComponent = Some 8, d_ColorSpace = Some ''DeviceRGB'',
                      d_Filter = Some ''DCTDecode'' \<rparr> [4, 5])"
proof -
  let ?bad = "demo_replacement ''Im1'' 11 (demo_image 1 200 100 (Some ''data:image/png;base64,broken''))"
  let ?good = "demo_replacement ''Im2'' 12 (demo_image 0 50 50 (Some ''data:image/jpeg;base64,BBBB''))"
  have f: "fetch demo_env (dataURLToUse (optimizedImg ?bad)) = None"
    by (simp add: demo_replacement_def demo_image_def demo_env_def dataURLToUse_def)
  have good: "lookup (apply_replacements demo_env [?good] demo_doc) =
                (lookup demo_doc)(12 \<mapsto> Stream \<lparr> d_Type = Some ''XObject'', d_Subtype = Some ''Image'',
                      d_Width = DimNum 50, d_Height = DimNum 50,
                      d_BitsPerComponent = Some 8, d_ColorSpace = Some ''DeviceRGB'',
                      d_Filter = Some ''DCTDecode'' \<rparr> [4, 5])"
    and nr: "nextRef (apply_replacements demo_env [?good] demo_doc) = 13"
    by (simp_all add: apply_replacement_def dataURLToUse_def demo_replacement_def demo_image_def
          demo_env_def demo_doc_def Let_def manual_replace_def manual_dict_def)
  note inst = failed_replacement_is_skipped [of demo_env ?bad demo_doc "[]" "[?good]"]
  from inst f have eq: "apply_replacements demo_env ([] @ ?bad # [?good]) demo_doc =
      apply_replacements demo_env ([] @ [?good]) demo_doc"
    and sv: "patch_and_save demo_env ([] @ ?bad # [?good]) demo_doc =
      patch_and_save demo_env ([] @ [?good]) demo_doc"
    by blast+
  have "patch_and_save demo_env [?good] demo_doc = Inr [13]"
    using nr by (simp add: patch_and_save_def demo_env_def)
  with sv have a: "patch_and_save demo_env [?bad, ?good] demo_doc = Inr [13]"
    by simp
  from eq have eq': "apply_replacements demo_env [?bad, ?good] demo_doc =
      apply_replacements demo_env [?good] demo_doc"
    by simp
  let ?d = "\<lparr> d_Type = Some ''XObject'', d_Subtype = Some ''Image'',
              d_Width = DimNum 200, d_Height = DimNum 100,
              d_BitsPerComponent = Some 8, d_ColorSpace = Some ''DeviceRGB'',
              d_Filter = Some ''FlateDecode'' \<rparr>"
  have untouched: "11 \<notin> xObjRef ` set [?good] \<and> lookup demo_doc 11 = Some (Stream ?d [7, 7]) \<and>
      11 < nextRef demo_doc"
    by (simp add: demo_replacement_def demo_doc_def demo_stream_def)
  from failed_replacement_is_skipped
         [where p = 11 and plan = "[?good]" and doc = demo_doc and env = demo_env
            and d = ?d and c = "[7, 7]"] untouched
  have "lookup (apply_replacements demo_env [?good] demo_doc) 11 = Some (Stream ?d [7, 7])"
    by blast
  then have b: "lookup (apply_replacements demo_env [?bad, ?good] demo_doc) 11 = Some (demo_stream 200 100 [7, 7])"
    unfolding eq' by (simp add: demo_stream_def)
  have c: "lookup (apply_replacements demo_env [?bad, ?good] demo_doc) 12 =
       Some (Stream \<lparr> d_Type = Some ''XObject'', d_Subtype = Some ''Image'',
                      d_Width = DimNum 50, d_Height = DimNum 50,
                      d_BitsPerComponent = Some 8, d_ColorSpace = Some ''DeviceRGB'',
                      d_Filter = Some ''DCTDecode'' \<rparr> [4, 5])"
    unfolding eq' good by simp
  from a b c show ?thesis by simp
qed

end
